theory Spec2Isabelle
  imports Main "HOL-Library.Word" "HOL-Library.Dlist" "HOL-Library.AList"
begin

section \<open>Values shared by the three modules\<close>

text \<open>
  The ingest package (\<^verbatim>\<open>task.py\<close>, \<^verbatim>\<open>state.py\<close>, \<^verbatim>\<open>transaction.py\<close>) is pure
  in-memory Python. Its only contacts with the outside are \<^verbatim>\<open>uuid4()\<close>,
  \<^verbatim>\<open>datetime.now()\<close>, and the string forms of UUIDs and datetimes.

  A UUID is its 128-bit integer. A (naive) datetime is the number of microseconds since
  0001-01-01T00:00:00, the first instant Python's \<^verbatim>\<open>datetime\<close> can hold; the last
  one is 9999-12-31T23:59:59.999999, ordinal day 3652059.
\<close>

type_synonym uuid = "128 word"
type_synonym datetime = int

text \<open>The exceptions the three modules can raise, directly or through the library.\<close>

datatype error =
    ValueError string
  | KeyError string
  | TypeError
  | AttributeError
  | OverflowError

text \<open>
  \<^verbatim>\<open>Dict[str, Any]\<close>: the JSON-shaped values \<^verbatim>\<open>to_dict\<close> builds and
  \<^verbatim>\<open>from_dict\<close> reads. A dict keeps its insertion order, so it is an association list.
\<close>

datatype pyval =
    PNone
  | PBool bool
  | PInt int
  | PStr string
  | PList "pyval list"
  | PDict "(string \<times> pyval) list"

type_synonym pydict = "(string \<times> pyval) list"

subsection \<open>The clock and the UUID generator\<close>

text \<open>
  \<^verbatim>\<open>datetime.now()\<close> and \<^verbatim>\<open>uuid4()\<close> read the world. The world holds what each
  call will return (the n-th reading of the clock, the n-th UUID drawn) and how many calls
  were made so far; a call returns the next value and counts itself.
\<close>

record world =
  clock :: "nat \<Rightarrow> datetime"
  ticks :: nat
  uuid_source :: "nat \<Rightarrow> uuid"
  draws :: nat

definition datetime_now :: "world \<Rightarrow> datetime \<times> world" where
  "datetime_now w = (clock w (ticks w), w\<lparr>ticks := Suc (ticks w)\<rparr>)"

definition uuid4 :: "world \<Rightarrow> uuid \<times> world" where
  "uuid4 w = (uuid_source w (draws w), w\<lparr>draws := Suc (draws w)\<rparr>)"

definition microseconds_per_day :: int where
  "microseconds_per_day = 86400000000"

definition datetime_max :: datetime where
  "datetime_max = 3652059 * microseconds_per_day - 1"

text \<open>
  \<^verbatim>\<open>t + timedelta(days=d)\<close>. \<^verbatim>\<open>timedelta\<close> raises OverflowError when
  \<open>\<bar>d\<bar> > 999999999\<close>, and the sum raises OverflowError when it leaves the years
  1..9999; for a \<open>t\<close> inside that range the first case is one of the second.
\<close>

definition add_days :: "datetime \<Rightarrow> int \<Rightarrow> error + datetime" where
  "add_days t d =
     (let r = t + d * microseconds_per_day
      in if 0 \<le> r \<and> r \<le> datetime_max then Inr r else Inl OverflowError)"

subsection \<open>Dicts, and the string forms of UUIDs and datetimes\<close>

text \<open>
  \<^verbatim>\<open>str(uuid)\<close>, \<^verbatim>\<open>UUID(s)\<close>, \<^verbatim>\<open>d.isoformat()\<close> and
  \<^verbatim>\<open>datetime.fromisoformat(s)\<close> belong to Python's library, not to this package.
  The model takes them as a parameter; the two parsers return \<open>None\<close> where Python's
  raise ValueError. What the library promises of them is \<open>codec_inverse\<close>: parsing the
  string form gives the value back, and the string form of a datetime is not empty.
\<close>

record codec =
  str_of_uuid :: "uuid \<Rightarrow> string"
  uuid_of_str :: "string \<Rightarrow> uuid option"
  isoformat :: "datetime \<Rightarrow> string"
  fromisoformat :: "string \<Rightarrow> datetime option"

definition codec_inverse :: "codec \<Rightarrow> bool" where
  "codec_inverse c \<longleftrightarrow>
     (\<forall>u. uuid_of_str c (str_of_uuid c u) = Some u)
     \<and> (\<forall>d. fromisoformat c (isoformat c d) = Some d)
     \<and> (\<forall>d. isoformat c d \<noteq> [])"

definition quoted :: "string \<Rightarrow> string" where
  "quoted s = CHR 0x27 # s @ [CHR 0x27]"

definition and_then :: "error + 'a \<Rightarrow> ('a \<Rightarrow> error + 'b) \<Rightarrow> error + 'b" where
  "and_then m f = (case m of Inl e \<Rightarrow> Inl e | Inr x \<Rightarrow> f x)"

text \<open>A list comprehension whose element expression can raise stops at the first raise.\<close>

fun traverse :: "('a \<Rightarrow> error + 'b) \<Rightarrow> 'a list \<Rightarrow> error + 'b list" where
  "traverse f [] = Inr []"
| "traverse f (x # xs) =
     and_then (f x) (\<lambda>y. and_then (traverse f xs) (\<lambda>ys. Inr (y # ys)))"

text \<open>A dict comprehension: a later pair with a key already seen replaces the value.\<close>

definition dict_of :: "('k \<times> 'v) list \<Rightarrow> ('k \<times> 'v) list" where
  "dict_of kvs = foldl (\<lambda>acc (k, v). AList.update k v acc) [] kvs"

text \<open>\<^verbatim>\<open>data[k]\<close> and \<^verbatim>\<open>data.get(k, dflt)\<close>.\<close>

definition getitem :: "pydict \<Rightarrow> string \<Rightarrow> error + pyval" where
  "getitem data k = (case map_of data k of None \<Rightarrow> Inl (KeyError k) | Some v \<Rightarrow> Inr v)"

definition dict_get :: "pydict \<Rightarrow> string \<Rightarrow> pyval \<Rightarrow> pyval" where
  "dict_get data k dflt = (case map_of data k of None \<Rightarrow> dflt | Some v \<Rightarrow> v)"

text \<open>The truth value Python's \<^verbatim>\<open>if x:\<close> gives a value.\<close>

fun truthy :: "pyval \<Rightarrow> bool" where
  "truthy PNone = False"
| "truthy (PBool b) = b"
| "truthy (PInt i) = (i \<noteq> 0)"
| "truthy (PStr s) = (s \<noteq> [])"
| "truthy (PList vs) = (vs \<noteq> [])"
| "truthy (PDict kvs) = (kvs \<noteq> [])"

text \<open>
  A dataclass does not check the type of what its constructor is given. The records of
  this model are typed as the dataclasses annotate their fields, so reading a field from
  a dict value of another type has no counterpart here: it is reported as TypeError. No
  output of \<^verbatim>\<open>to_dict\<close> reaches these cases.
\<close>

definition expect_str :: "pyval \<Rightarrow> error + string" where
  "expect_str v = (case v of PStr s \<Rightarrow> Inr s | _ \<Rightarrow> Inl TypeError)"

definition expect_optional_str :: "pyval \<Rightarrow> error + string option" where
  "expect_optional_str v =
     (case v of PNone \<Rightarrow> Inr None | PStr s \<Rightarrow> Inr (Some s) | _ \<Rightarrow> Inl TypeError)"

definition expect_optional_int :: "pyval \<Rightarrow> error + int option" where
  "expect_optional_int v =
     (case v of PNone \<Rightarrow> Inr None | PInt i \<Rightarrow> Inr (Some i) | _ \<Rightarrow> Inl TypeError)"

definition expect_dict :: "pyval \<Rightarrow> error + pydict" where
  "expect_dict v = (case v of PDict kvs \<Rightarrow> Inr kvs | _ \<Rightarrow> Inl TypeError)"

definition expect_list :: "pyval \<Rightarrow> error + pyval list" where
  "expect_list v = (case v of PList vs \<Rightarrow> Inr vs | _ \<Rightarrow> Inl TypeError)"

text \<open>
  \<^verbatim>\<open>UUID(v)\<close> and \<^verbatim>\<open>datetime.fromisoformat(v)\<close>. \<^verbatim>\<open>UUID\<close> refuses
  \<open>None\<close> with TypeError and calls \<^verbatim>\<open>replace\<close> on anything else, which only a
  string has; \<^verbatim>\<open>fromisoformat\<close> refuses what is not a string with TypeError. In
  the messages a string stands in single quotes, as its \<^verbatim>\<open>repr\<close> is when it has no
  quote, backslash or unprintable character.
\<close>

definition UUID :: "codec \<Rightarrow> pyval \<Rightarrow> error + uuid" where
  "UUID c v =
     (case v of
        PStr s \<Rightarrow>
          (case uuid_of_str c s of
             None \<Rightarrow> Inl (ValueError ''badly formed hexadecimal UUID string'')
           | Some u \<Rightarrow> Inr u)
      | PNone \<Rightarrow> Inl TypeError
      | _ \<Rightarrow> Inl AttributeError)"

definition datetime_fromisoformat :: "codec \<Rightarrow> pyval \<Rightarrow> error + datetime" where
  "datetime_fromisoformat c v =
     (case v of
        PStr s \<Rightarrow>
          (case fromisoformat c s of
             None \<Rightarrow> Inl (ValueError (''Invalid isoformat string: '' @ quoted s))
           | Some d \<Rightarrow> Inr d)
      | _ \<Rightarrow> Inl TypeError)"

text \<open>
  \<^verbatim>\<open>datetime.fromisoformat(data[k]) if data.get(k) else None\<close>, and its inverse
  \<^verbatim>\<open>d.isoformat() if d else None\<close> (a datetime is always true).
\<close>

definition optional_datetime :: "codec \<Rightarrow> pydict \<Rightarrow> string \<Rightarrow> error + datetime option" where
  "optional_datetime c data k =
     (if truthy (dict_get data k PNone)
      then and_then (and_then (getitem data k) (datetime_fromisoformat c)) (\<lambda>d. Inr (Some d))
      else Inr None)"

definition optional_isoformat :: "codec \<Rightarrow> datetime option \<Rightarrow> pyval" where
  "optional_isoformat c d = (case d of Some t \<Rightarrow> PStr (isoformat c t) | None \<Rightarrow> PNone)"

definition optional_str :: "string option \<Rightarrow> pyval" where
  "optional_str v = (case v of Some s \<Rightarrow> PStr s | None \<Rightarrow> PNone)"

section \<open>task.py\<close>

datatype TaskStatus = PENDING | IN_PROGRESS | COMPLETED | BLOCKED

record Task =
  task_id :: uuid
  task_title :: string
  task_description :: string
  status :: TaskStatus
  task_created_at :: datetime
  completed_at :: "datetime option"
  task_assignee :: "string option"
  due_date :: "datetime option"
  task_dependencies :: "uuid list"
  task_metadata :: pydict

definition mark_in_progress :: "Task \<Rightarrow> Task" where
  "mark_in_progress self =
     (if status self = PENDING then self\<lparr>status := IN_PROGRESS\<rparr> else self)"

definition mark_completed :: "Task \<Rightarrow> world \<Rightarrow> Task \<times> world" where
  "mark_completed self w =
     (let self1 = self\<lparr>status := COMPLETED\<rparr>;
          (now, w1) = datetime_now w
      in (self1\<lparr>completed_at := Some now\<rparr>, w1))"

definition mark_blocked :: "Task \<Rightarrow> Task" where
  "mark_blocked self = self\<lparr>status := BLOCKED\<rparr>"

definition status_value :: "TaskStatus \<Rightarrow> string" where
  "status_value s =
     (case s of PENDING \<Rightarrow> ''pending'' | IN_PROGRESS \<Rightarrow> ''in_progress''
      | COMPLETED \<Rightarrow> ''completed'' | BLOCKED \<Rightarrow> ''blocked'')"

text \<open>
  \<^verbatim>\<open>TaskStatus(v)\<close>: the member with that value, or ValueError. Its message starts
  with the \<^verbatim>\<open>repr\<close> of the value; the model writes it for a string and leaves it
  out for a value of another type.
\<close>

definition TaskStatus_of :: "pyval \<Rightarrow> error + TaskStatus" where
  "TaskStatus_of v =
     (if v = PStr ''pending'' then Inr PENDING
      else if v = PStr ''in_progress'' then Inr IN_PROGRESS
      else if v = PStr ''completed'' then Inr COMPLETED
      else if v = PStr ''blocked'' then Inr BLOCKED
      else Inl (ValueError
             ((case v of PStr s \<Rightarrow> quoted s | _ \<Rightarrow> [])
                @ '' is not a valid TaskStatus'')))"

definition Task_to_dict :: "codec \<Rightarrow> Task \<Rightarrow> pydict" where
  "Task_to_dict c self =
     [(''id'', PStr (str_of_uuid c (task_id self))),
      (''title'', PStr (task_title self)),
      (''description'', PStr (task_description self)),
      (''status'', PStr (status_value (status self))),
      (''created_at'', PStr (isoformat c (task_created_at self))),
      (''completed_at'', optional_isoformat c (completed_at self)),
      (''assignee'', optional_str (task_assignee self)),
      (''due_date'', optional_isoformat c (due_date self)),
      (''dependencies'', PList (map (\<lambda>dep_id. PStr (str_of_uuid c dep_id)) (task_dependencies self))),
      (''metadata'', PDict (task_metadata self))]"

definition Task_from_dict :: "codec \<Rightarrow> pydict \<Rightarrow> error + Task" where
  "Task_from_dict c data =
     and_then (and_then (getitem data ''id'') (UUID c)) (\<lambda>i.
     and_then (and_then (getitem data ''title'') expect_str) (\<lambda>title.
     and_then (and_then (getitem data ''description'') expect_str) (\<lambda>description.
     and_then (and_then (getitem data ''status'') TaskStatus_of) (\<lambda>st.
     and_then (and_then (getitem data ''created_at'') (datetime_fromisoformat c)) (\<lambda>created.
     and_then (optional_datetime c data ''completed_at'') (\<lambda>completed.
     and_then (expect_optional_str (dict_get data ''assignee'' PNone)) (\<lambda>assignee.
     and_then (optional_datetime c data ''due_date'') (\<lambda>due.
     and_then (and_then (expect_list (dict_get data ''dependencies'' (PList [])))
                 (traverse (UUID c))) (\<lambda>deps.
     and_then (expect_dict (dict_get data ''metadata'' (PDict []))) (\<lambda>meta.
     Inr \<lparr>task_id = i, task_title = title, task_description = description, status = st,
          task_created_at = created, completed_at = completed, task_assignee = assignee,
          due_date = due, task_dependencies = deps, task_metadata = meta\<rparr>))))))))))"

section \<open>state.py\<close>

record TaskTemplate =
  template_title :: string
  template_description :: string
  template_assignee :: "string option"
  days_until_due :: "int option"
  template_dependencies :: "string list"
  template_metadata :: pydict

text \<open>
  A State points at its parent and its children, and a registry and a Transaction point
  at States they do not own. So a State object is a reference, and the store gives the
  object behind each reference. \<open>allowed_transitions\<close> is a Python set: no repeated
  element, and an iteration order of its own.
\<close>

type_synonym ref = nat

record State =
  name :: string
  display_name :: string
  state_description :: string
  parent :: "ref option"
  children :: "ref list"
  allowed_transitions :: "string dlist"
  task_templates :: "TaskTemplate list"
  state_metadata :: pydict

type_synonym store = "ref \<Rightarrow> State"

definition can_transition_to :: "State \<Rightarrow> string \<Rightarrow> bool" where
  "can_transition_to self target_state_name =
     Dlist.member (allowed_transitions self) target_state_name"

text \<open>
  \<^verbatim>\<open>get_full_path\<close>: the loop \<^verbatim>\<open>while current: path.insert(0, current.name);
  current = current.parent\<close>. It runs for ever on a cyclic parent chain, so the loop is
  a partial function and \<open>None\<close> stands for not returning.
\<close>

partial_function (option) get_full_path_loop ::
  "store \<Rightarrow> ref option \<Rightarrow> string list \<Rightarrow> string list option" where
  "get_full_path_loop h current path =
     (case current of
        None \<Rightarrow> Some path
      | Some c \<Rightarrow> get_full_path_loop h (parent (h c)) (name (h c) # path))"

definition get_full_path :: "store \<Rightarrow> ref \<Rightarrow> string list option" where
  "get_full_path h self = get_full_path_loop h (Some self) []"

definition template_to_dict :: "TaskTemplate \<Rightarrow> pydict" where
  "template_to_dict tt =
     [(''title'', PStr (template_title tt)),
      (''description'', PStr (template_description tt)),
      (''assignee'', optional_str (template_assignee tt)),
      (''days_until_due'', (case days_until_due tt of Some d \<Rightarrow> PInt d | None \<Rightarrow> PNone)),
      (''dependencies'', PList (map PStr (template_dependencies tt))),
      (''metadata'', PDict (template_metadata tt))]"

definition State_to_dict :: "store \<Rightarrow> State \<Rightarrow> pydict" where
  "State_to_dict h self =
     [(''name'', PStr (name self)),
      (''display_name'', PStr (display_name self)),
      (''description'', PStr (state_description self)),
      (''parent'', (case parent self of Some p \<Rightarrow> PStr (name (h p)) | None \<Rightarrow> PNone)),
      (''allowed_transitions'', PList (map PStr (list_of_dlist (allowed_transitions self)))),
      (''task_templates'', PList (map (\<lambda>tt. PDict (template_to_dict tt)) (task_templates self))),
      (''metadata'', PDict (state_metadata self))]"

text \<open>
  \<^verbatim>\<open>TaskTemplate(**tt)\<close>: a key that is no field of the dataclass, or no
  \<^verbatim>\<open>title\<close>, is a TypeError of the constructor; the other fields have defaults.
\<close>

definition TaskTemplate_of_kwargs :: "pydict \<Rightarrow> error + TaskTemplate" where
  "TaskTemplate_of_kwargs tt =
     (if \<not> list_all (\<lambda>(k, v). k \<in> set [''title'', ''description'', ''assignee'',
              ''days_until_due'', ''dependencies'', ''metadata'']) tt
      then Inl TypeError
      else
        and_then (case map_of tt ''title'' of None \<Rightarrow> Inl TypeError | Some v \<Rightarrow> expect_str v) (\<lambda>title.
        and_then (expect_str (dict_get tt ''description'' (PStr []))) (\<lambda>description.
        and_then (expect_optional_str (dict_get tt ''assignee'' PNone)) (\<lambda>assignee.
        and_then (expect_optional_int (dict_get tt ''days_until_due'' PNone)) (\<lambda>days.
        and_then (and_then (expect_list (dict_get tt ''dependencies'' (PList [])))
                    (traverse expect_str)) (\<lambda>deps.
        and_then (expect_dict (dict_get tt ''metadata'' (PDict []))) (\<lambda>meta.
        Inr \<lparr>template_title = title, template_description = description,
             template_assignee = assignee, days_until_due = days,
             template_dependencies = deps, template_metadata = meta\<rparr>)))))))"

text \<open>The registry: the dict \<^verbatim>\<open>_states\<close>, from a state's name to the State.\<close>

record StateRegistry =
  states :: "(string \<times> ref) list"

definition register :: "store \<Rightarrow> StateRegistry \<Rightarrow> ref \<Rightarrow> StateRegistry" where
  "register h self state = self\<lparr>states := AList.update (name (h state)) state (states self)\<rparr>"

definition get :: "StateRegistry \<Rightarrow> string \<Rightarrow> ref option" where
  "get self n = map_of (states self) n"

text \<open>
  \<^verbatim>\<open>State.from_dict\<close>. The new State has no children. Its parent is looked up by
  name: \<^verbatim>\<open>if parent_name and parent_name in state_registry._states\<close>; a list or a
  dict cannot be hashed for the lookup.
\<close>

definition State_from_dict :: "pydict \<Rightarrow> StateRegistry \<Rightarrow> error + State" where
  "State_from_dict data state_registry =
     and_then (and_then (getitem data ''name'') expect_str) (\<lambda>n.
     and_then (and_then (getitem data ''display_name'') expect_str) (\<lambda>dn.
     and_then (expect_str (dict_get data ''description'' (PStr []))) (\<lambda>description.
     and_then (and_then (expect_list (dict_get data ''allowed_transitions'' (PList [])))
                 (traverse expect_str)) (\<lambda>allowed.
     and_then (and_then (expect_list (dict_get data ''task_templates'' (PList [])))
                 (traverse (\<lambda>tt. and_then (expect_dict tt) TaskTemplate_of_kwargs))) (\<lambda>templates.
     and_then (expect_dict (dict_get data ''metadata'' (PDict []))) (\<lambda>meta.
     let state = \<lparr>name = n, display_name = dn, state_description = description,
                   parent = None, children = [], allowed_transitions = Dlist allowed,
                   task_templates = templates, state_metadata = meta\<rparr>;
         parent_name = dict_get data ''parent'' PNone
     in if truthy parent_name then
          (case parent_name of
             PStr pn \<Rightarrow>
               (case map_of (states state_registry) pn of
                  Some p \<Rightarrow> Inr (state\<lparr>parent := Some p\<rparr>)
                | None \<Rightarrow> Inr state)
           | PList vs \<Rightarrow> Inl TypeError
           | PDict kvs \<Rightarrow> Inl TypeError
           | _ \<Rightarrow> Inr state)
        else Inr state))))))"

definition undefined_target_error :: "string \<Rightarrow> string \<Rightarrow> string" where
  "undefined_target_error state_name target_name =
     ''State '' @ quoted state_name @ '' allows transition to undefined state ''
       @ quoted target_name"

definition validate_transitions :: "store \<Rightarrow> StateRegistry \<Rightarrow> string list" where
  "validate_transitions h self =
     [undefined_target_error (name (h state)) target_name.
        state \<leftarrow> map snd (states self),
        target_name \<leftarrow> list_of_dlist (allowed_transitions (h state)),
        map_of (states self) target_name = None]"

section \<open>transaction.py\<close>

record StateTransition =
  timestamp :: datetime
  from_state :: "string option"
  to_state :: string
  transition_notes :: string
  transition_metadata :: pydict

definition StateTransition_to_dict :: "codec \<Rightarrow> StateTransition \<Rightarrow> pydict" where
  "StateTransition_to_dict c self =
     [(''timestamp'', PStr (isoformat c (timestamp self))),
      (''from_state'', optional_str (from_state self)),
      (''to_state'', PStr (to_state self)),
      (''notes'', PStr (transition_notes self)),
      (''metadata'', PDict (transition_metadata self))]"

definition StateTransition_from_dict :: "codec \<Rightarrow> pydict \<Rightarrow> error + StateTransition" where
  "StateTransition_from_dict c data =
     and_then (and_then (getitem data ''timestamp'') (datetime_fromisoformat c)) (\<lambda>ts.
     and_then (expect_optional_str (dict_get data ''from_state'' PNone)) (\<lambda>src.
     and_then (and_then (getitem data ''to_state'') expect_str) (\<lambda>dst.
     and_then (expect_str (dict_get data ''notes'' (PStr []))) (\<lambda>ns.
     and_then (expect_dict (dict_get data ''metadata'' (PDict []))) (\<lambda>meta.
     Inr \<lparr>timestamp = ts, from_state = src, to_state = dst, transition_notes = ns,
          transition_metadata = meta\<rparr>)))))"

text \<open>
  The Transaction. \<open>tasks\<close> is a dict from a Task's id to the Task, in insertion order;
  \<open>current_state\<close> is a reference to a State the Transaction does not own.
\<close>

record Transaction =
  transaction_id :: uuid
  property_address :: string
  current_state :: "ref option"
  state_history :: "StateTransition list"
  tasks :: "(uuid \<times> Task) list"
  property_metadata :: pydict
  transaction_created_at :: datetime
  transaction_metadata :: pydict
  state_registry :: "StateRegistry option"

definition set_state_registry :: "Transaction \<Rightarrow> StateRegistry \<Rightarrow> Transaction" where
  "set_state_registry self registry = self\<lparr>state_registry := Some registry\<rparr>"

text \<open>
  The body of the first loop of \<^verbatim>\<open>_create_tasks_from_templates\<close>: the constructor
  draws the id and reads the clock for \<open>created_at\<close> (the dataclass's default
  factories, in field order), then the due date reads the clock again and can overflow.
\<close>

definition new_task :: "TaskTemplate \<Rightarrow> world \<Rightarrow> (error + Task) \<times> world" where
  "new_task template w =
     (let (new_id, w1) = uuid4 w;
          (created, w2) = datetime_now w1;
          task = \<lparr>task_id = new_id, task_title = template_title template,
                  task_description = template_description template, status = PENDING,
                  task_created_at = created, completed_at = None,
                  task_assignee = template_assignee template, due_date = None,
                  task_dependencies = [], task_metadata = template_metadata template\<rparr>
      in case days_until_due template of
           None \<Rightarrow> (Inr task, w2)
         | Some d \<Rightarrow>
             (let (now, w3) = datetime_now w2
              in case add_days now d of
                   Inl e \<Rightarrow> (Inl e, w3)
                 | Inr due \<Rightarrow> (Inr (task\<lparr>due_date := Some due\<rparr>), w3)))"

text \<open>The first loop: one Task per template, recorded under its title and stored.\<close>

fun instantiate_templates ::
  "TaskTemplate list \<Rightarrow> (string \<times> uuid) list \<Rightarrow> Transaction \<Rightarrow> world
     \<Rightarrow> (error + (string \<times> uuid) list) \<times> Transaction \<times> world" where
  "instantiate_templates [] template_to_task self w = (Inr template_to_task, self, w)"
| "instantiate_templates (template # rest) template_to_task self w =
     (case new_task template w of
        (Inl e, w1) \<Rightarrow> (Inl e, self, w1)
      | (Inr task, w1) \<Rightarrow>
          instantiate_templates rest
            (AList.update (template_title template) (task_id task) template_to_task)
            (self\<lparr>tasks := AList.update (task_id task) task (tasks self)\<rparr>) w1)"

text \<open>
  The second loop: for a template with dependencies, the Task recorded under its title
  gets the ids recorded under the names it depends on; a name not recorded is skipped.
  The two subscripts \<^verbatim>\<open>template_to_task[template.title]\<close> and
  \<^verbatim>\<open>self.tasks[task_id]\<close> raise KeyError on a missing key.
\<close>

fun resolve_dependencies ::
  "TaskTemplate list \<Rightarrow> (string \<times> uuid) list \<Rightarrow> Transaction \<Rightarrow> (error + unit) \<times> Transaction" where
  "resolve_dependencies [] template_to_task self = (Inr (), self)"
| "resolve_dependencies (template # rest) template_to_task self =
     (if template_dependencies template \<noteq> [] then
        (case map_of template_to_task (template_title template) of
           None \<Rightarrow> (Inl (KeyError (template_title template)), self)
         | Some tid \<Rightarrow>
             (case map_of (tasks self) tid of
                None \<Rightarrow> (Inl (KeyError []), self)
              | Some task \<Rightarrow>
                  resolve_dependencies rest template_to_task
                    (self\<lparr>tasks := AList.update tid
                       (task\<lparr>task_dependencies := task_dependencies task
                          @ List.map_filter (map_of template_to_task)
                              (template_dependencies template)\<rparr>)
                       (tasks self)\<rparr>)))
      else resolve_dependencies rest template_to_task self)"

definition create_tasks_from_templates ::
  "State \<Rightarrow> Transaction \<Rightarrow> world \<Rightarrow> (error + unit) \<times> Transaction \<times> world" where
  "create_tasks_from_templates state self w =
     (case instantiate_templates (task_templates state) [] self w of
        (Inl e, self1, w1) \<Rightarrow> (Inl e, self1, w1)
      | (Inr template_to_task, self1, w1) \<Rightarrow>
          (case resolve_dependencies (task_templates state) template_to_task self1 of
             (r, self2) \<Rightarrow> (r, self2, w1)))"

text \<open>
  \<^verbatim>\<open>transition_to\<close>. The result is what the call returns or raises, with the
  Transaction and the world as the call leaves them: what was written before a raise
  stays written. A StateRegistry and a State define neither \<^verbatim>\<open>__bool__\<close> nor
  \<^verbatim>\<open>__len__\<close>, so \<^verbatim>\<open>not x\<close> holds of \<open>None\<close> only.
\<close>

definition transition_to ::
  "store \<Rightarrow> string \<Rightarrow> string \<Rightarrow> bool \<Rightarrow> Transaction \<Rightarrow> world
     \<Rightarrow> (error + bool) \<times> Transaction \<times> world" where
  "transition_to h target_state_name some_notes auto_create_tasks self w =
     (case state_registry self of
        None \<Rightarrow>
          (Inl (ValueError ''State registry not set. Call set_state_registry() first.''), self, w)
      | Some registry \<Rightarrow>
          (case get registry target_state_name of
             None \<Rightarrow> (Inl (ValueError (''Unknown state: '' @ target_state_name)), self, w)
           | Some target_state \<Rightarrow>
               (if (case current_state self of
                      Some cur \<Rightarrow> \<not> can_transition_to (h cur) target_state_name
                    | None \<Rightarrow> False)
                then (Inr False, self, w)
                else
                  (let (now, w1) = datetime_now w;
                       transition =
                         \<lparr>timestamp = now,
                          from_state = (case current_state self of
                                          Some cur \<Rightarrow> Some (name (h cur)) | None \<Rightarrow> None),
                          to_state = target_state_name, transition_notes = some_notes,
                          transition_metadata = []\<rparr>;
                       self1 = self\<lparr>state_history := state_history self @ [transition]\<rparr>;
                       self2 = self1\<lparr>current_state := Some target_state\<rparr>
                   in if auto_create_tasks then
                        (case create_tasks_from_templates (h target_state) self2 w1 of
                           (Inl e, self3, w2) \<Rightarrow> (Inl e, self3, w2)
                         | (Inr u, self3, w2) \<Rightarrow> (Inr True, self3, w2))
                      else (Inr True, self2, w1)))))"

definition Transaction_to_dict :: "codec \<Rightarrow> store \<Rightarrow> Transaction \<Rightarrow> pydict" where
  "Transaction_to_dict c h self =
     [(''id'', PStr (str_of_uuid c (transaction_id self))),
      (''property_address'', PStr (property_address self)),
      (''current_state'',
         (case current_state self of Some cur \<Rightarrow> PStr (name (h cur)) | None \<Rightarrow> PNone)),
      (''state_history'',
         PList (map (\<lambda>t. PDict (StateTransition_to_dict c t)) (state_history self))),
      (''tasks'',
         PDict (dict_of (map (\<lambda>(tid, task). (str_of_uuid c tid, PDict (Task_to_dict c task)))
                  (tasks self)))),
      (''property_metadata'', PDict (property_metadata self)),
      (''created_at'', PStr (isoformat c (transaction_created_at self))),
      (''metadata'', PDict (transaction_metadata self))]"

text \<open>
  \<^verbatim>\<open>Transaction.from_dict\<close>. The registry given is attached, and the current state
  is looked up in it by name: \<^verbatim>\<open>if current_state_name: transaction.current_state =
  state_registry.get(current_state_name)\<close>.
\<close>

definition Transaction_from_dict ::
  "codec \<Rightarrow> pydict \<Rightarrow> StateRegistry \<Rightarrow> error + Transaction" where
  "Transaction_from_dict c data registry =
     and_then (and_then (getitem data ''id'') (UUID c)) (\<lambda>i.
     and_then (and_then (getitem data ''property_address'') expect_str) (\<lambda>address.
     and_then (and_then (expect_list (dict_get data ''state_history'' (PList [])))
                 (traverse (\<lambda>t. and_then (expect_dict t) (StateTransition_from_dict c)))) (\<lambda>history.
     and_then (and_then (expect_dict (dict_get data ''tasks'' (PDict [])))
                 (traverse (\<lambda>(tid, task_data).
                    and_then (UUID c (PStr tid)) (\<lambda>u.
                    and_then (and_then (expect_dict task_data) (Task_from_dict c)) (\<lambda>task.
                    Inr (u, task)))))) (\<lambda>task_items.
     and_then (expect_dict (dict_get data ''property_metadata'' (PDict []))) (\<lambda>pmeta.
     and_then (and_then (getitem data ''created_at'') (datetime_fromisoformat c)) (\<lambda>created.
     and_then (expect_dict (dict_get data ''metadata'' (PDict []))) (\<lambda>meta.
     let transaction0 =
           \<lparr>transaction_id = i, property_address = address, current_state = None,
            state_history = history, tasks = dict_of task_items, property_metadata = pmeta,
            transaction_created_at = created, transaction_metadata = meta,
            state_registry = None\<rparr>;
         transaction = set_state_registry transaction0 registry;
         current_state_name = dict_get data ''current_state'' PNone
     in if truthy current_state_name then
          (case current_state_name of
             PStr n \<Rightarrow> Inr (transaction\<lparr>current_state := get registry n\<rparr>)
           | PList vs \<Rightarrow> Inl TypeError
           | PDict kvs \<Rightarrow> Inl TypeError
           | _ \<Rightarrow> Inr (transaction\<lparr>current_state := None\<rparr>))
        else Inr transaction)))))))"

section \<open>Notions the theorems are stated with\<close>

text \<open>
  What the claims say about a parent chain. \<open>parent_rel\<close> relates a parent to its child;
  the ancestors of a state (itself included) are what the loop of \<^verbatim>\<open>get_full_path\<close>
  visits. \<open>descends\<close> holds of a list of states in which each one is the parent of the
  next.
\<close>

definition parent_rel :: "store \<Rightarrow> (ref \<times> ref) set" where
  "parent_rel h = {(p, c). parent (h c) = Some p}"

definition ancestors :: "store \<Rightarrow> ref \<Rightarrow> ref set" where
  "ancestors h s = {a. (a, s) \<in> (parent_rel h)\<^sup>*}"

definition acyclic_chain :: "store \<Rightarrow> ref \<Rightarrow> bool" where
  "acyclic_chain h s = (\<forall>a \<in> ancestors h s. (a, a) \<notin> (parent_rel h)\<^sup>+)"

fun descends :: "store \<Rightarrow> ref list \<Rightarrow> bool" where
  "descends h [] = True"
| "descends h [r] = True"
| "descends h (p # c # rs) = (parent (h c) = Some p \<and> descends h (c # rs))"

text \<open>
  What the claims say about a registry: the names it has a state for, and the targets a
  state allows that it has no state for.
\<close>

definition registry_keys :: "StateRegistry \<Rightarrow> string set" where
  "registry_keys self = fst ` set (states self)"

definition undefined_targets :: "store \<Rightarrow> StateRegistry \<Rightarrow> ref \<Rightarrow> string set" where
  "undefined_targets h self s =
     {t. Dlist.member (allowed_transitions (h s)) t \<and> t \<notin> registry_keys self}"

text \<open>
  What the claims say about template expansion. The ids the next \<open>n\<close> calls of
  \<^verbatim>\<open>uuid4()\<close> return; the Tasks the first loop builds, in order, while no due date
  overflows; storing a Task under its id.
\<close>

definition new_ids :: "world \<Rightarrow> nat \<Rightarrow> uuid list" where
  "new_ids w n = map (uuid_source w) [draws w..<draws w + n]"

fun planned_tasks :: "TaskTemplate list \<Rightarrow> world \<Rightarrow> Task list" where
  "planned_tasks [] w = []"
| "planned_tasks (template # rest) w =
     (case new_task template w of
        (Inl e, w1) \<Rightarrow> []
      | (Inr task, w1) \<Rightarrow> task # planned_tasks rest w1)"

definition store_task :: "(uuid \<times> Task) list \<Rightarrow> Task \<Rightarrow> (uuid \<times> Task) list" where
  "store_task ts t = AList.update (task_id t) t ts"

text \<open>
  The ids a template's dependency names resolve to under a title-to-id dict; all the ids
  the second loop appends to the Task with id \<open>u\<close>; appending ids to a Task.
\<close>

definition resolved :: "(string \<times> uuid) list \<Rightarrow> TaskTemplate \<Rightarrow> uuid list" where
  "resolved m t = List.map_filter (map_of m) (template_dependencies t)"

definition extra_deps :: "(string \<times> uuid) list \<Rightarrow> TaskTemplate list \<Rightarrow> uuid \<Rightarrow> uuid list" where
  "extra_deps m ts u =
     concat (map (resolved m) (filter (\<lambda>t. map_of m (template_title t) = Some u) ts))"

definition add_deps :: "uuid list \<Rightarrow> Task \<Rightarrow> Task" where
  "add_deps ds t = t\<lparr>task_dependencies := task_dependencies t @ ds\<rparr>"

text \<open>
  The ids drawn are fresh for a Transaction when they differ from each other and from
  the ids of its tasks, as \<^verbatim>\<open>uuid4()\<close> is taken to deliver. The dependency ids the
  claims expect of the Task made from template \<open>t\<close> of a batch \<open>ts\<close> with Task ids
  \<open>ids\<close>: for each name \<open>t\<close> depends on, in order, the id of the template of the batch
  with that title.
\<close>

definition fresh_ids :: "Transaction \<Rightarrow> uuid list \<Rightarrow> bool" where
  "fresh_ids self ids \<longleftrightarrow> distinct ids \<and> set ids \<inter> fst ` set (tasks self) = {}"

definition batch_dependencies :: "TaskTemplate list \<Rightarrow> uuid list \<Rightarrow> TaskTemplate \<Rightarrow> uuid list" where
  "batch_dependencies ts ids t =
     [ids ! j. n \<leftarrow> template_dependencies t, j \<leftarrow> [0..<length ts], template_title (ts ! j) = n]"

text \<open>
  No due date of the templates overflows at any reading of the clock the expansion can
  make: it reads the clock at most twice per template.
\<close>

definition due_dates_representable :: "world \<Rightarrow> TaskTemplate list \<Rightarrow> bool" where
  "due_dates_representable w ts \<longleftrightarrow>
     (\<forall>t \<in> set ts. \<forall>d. days_until_due t = Some d \<longrightarrow>
        (\<forall>k. ticks w \<le> k \<and> k < ticks w + 2 * length ts
              \<longrightarrow> add_days (clock w k) d \<noteq> Inl OverflowError))"

text \<open>
  The Transaction as \<^verbatim>\<open>transition_to\<close> leaves it before template expansion, once
  the registry, the target and the allowed transitions let the call through.
\<close>

definition entered :: "store \<Rightarrow> string \<Rightarrow> string \<Rightarrow> ref \<Rightarrow> Transaction \<Rightarrow> world \<Rightarrow> Transaction" where
  "entered h target ns s self w =
     self\<lparr>state_history := state_history self @
            [\<lparr>timestamp = clock w (ticks w),
              from_state = (case current_state self of
                              Some cur \<Rightarrow> Some (name (h cur)) | None \<Rightarrow> None),
              to_state = target, transition_notes = ns, transition_metadata = []\<rparr>],
          current_state := Some s\<rparr>"

section \<open>The scenario of the specification, as data\<close>

text \<open>
  \<^verbatim>\<open>State(name=n, display_name=n)\<close> and \<^verbatim>\<open>TaskTemplate(title=t)\<close>, every other
  field at its default.
\<close>

definition blank_state :: "string \<Rightarrow> State" where
  "blank_state n =
     \<lparr>name = n, display_name = n, state_description = [], parent = None, children = [],
      allowed_transitions = Dlist.empty, task_templates = [], state_metadata = []\<rparr>"

definition blank_template :: "string \<Rightarrow> TaskTemplate" where
  "blank_template t =
     \<lparr>template_title = t, template_description = [], template_assignee = None,
      days_until_due = None, template_dependencies = [], template_metadata = []\<rparr>"

text \<open>
  The states of the scenario: \<open>new_listing\<close> allows \<open>under_contract\<close>, which allows
  \<open>pending_inspection\<close> and \<open>cancelled\<close> and has the template "Order inspection", due in
  7 days. \<open>active\<close> is the parent of \<open>under_contract\<close>, which is the parent of
  \<open>pending_inspection\<close>. The registry holds the three states the scenario registers.
  One more state, \<open>archived\<close>, has a template due in 4000000 days, about 10951 years.
  The state \<open>inspection\<close> has the two templates of the second scenario, "Inspect" and
  "Repair", which depends on "Inspect" and also names "Order inspection", a template of
  \<open>under_contract\<close>. The state \<open>signing\<close> has two templates titled "Sign", the first
  of which depends on "Notarize", the third template. The state \<open>warranty\<close> has
  "Inspect", "Repair", which depends on "Inspect", and "Renew warranty", due in 4000000
  days.
\<close>

definition demo_store :: store where
  "demo_store r =
     (if r = 0 then (blank_state ''new_listing'')
        \<lparr>allowed_transitions := Dlist [''under_contract'']\<rparr>
      else if r = 1 then (blank_state ''under_contract'')
        \<lparr>parent := Some 3, children := [4],
         allowed_transitions := Dlist [''pending_inspection'', ''cancelled''],
         task_templates := [(blank_template ''Order inspection'')\<lparr>days_until_due := Some 7\<rparr>]\<rparr>
      else if r = 2 then blank_state ''cancelled''
      else if r = 3 then (blank_state ''active'')\<lparr>children := [1]\<rparr>
      else if r = 4 then (blank_state ''pending_inspection'')\<lparr>parent := Some 1\<rparr>
      else if r = 5 then (blank_state ''archived'')
        \<lparr>task_templates :=
           [(blank_template ''Purge records'')\<lparr>days_until_due := Some 4000000\<rparr>]\<rparr>
      else if r = 6 then (blank_state ''inspection'')
        \<lparr>task_templates :=
           [blank_template ''Inspect'',
            (blank_template ''Repair'')
              \<lparr>template_dependencies := [''Inspect'', ''Order inspection'']\<rparr>]\<rparr>
      else if r = 8 then (blank_state ''signing'')
        \<lparr>task_templates :=
           [(blank_template ''Sign'')\<lparr>template_dependencies := [''Notarize'']\<rparr>,
            blank_template ''Sign'',
            blank_template ''Notarize'']\<rparr>
      else if r = 9 then (blank_state ''warranty'')
        \<lparr>task_templates :=
           [blank_template ''Inspect'',
            (blank_template ''Repair'')\<lparr>template_dependencies := [''Inspect'']\<rparr>,
            (blank_template ''Renew warranty'')\<lparr>days_until_due := Some 4000000\<rparr>]\<rparr>
      else blank_state [])"

definition demo_registry :: StateRegistry where
  "demo_registry =
     register demo_store (register demo_store (register demo_store \<lparr>states = []\<rparr> 0) 1) 2"

definition archive_registry :: StateRegistry where
  "archive_registry = register demo_store demo_registry 5"

text \<open>A clock that starts at 2025-01-01T00:00:00 and moves a microsecond with each reading.\<close>

definition demo_world :: world where
  "demo_world =
     \<lparr>clock = (\<lambda>n. 63871286400000000 + int n), ticks = 0,
      uuid_source = (\<lambda>n. of_nat n + 100), draws = 0\<rparr>"

text \<open>
  A stand-in for the library's string forms, enough to run the examples: a UUID and a
  datetime are written as that many marks, a datetime after its sign.
\<close>

definition tally_codec :: codec where
  "tally_codec =
     \<lparr>str_of_uuid = (\<lambda>u. replicate (unat u) (CHR ''u'')),
      uuid_of_str = (\<lambda>s. Some (of_nat (length s))),
      isoformat = (\<lambda>d. (if d < 0 then CHR ''-'' else CHR ''T'') # replicate (nat \<bar>d\<bar>) (CHR ''0'')),
      fromisoformat = (\<lambda>s. case s of [] \<Rightarrow> None
                          | c # r \<Rightarrow> Some (if c = CHR ''-'' then - int (length r)
                                           else int (length r)))\<rparr>"

definition demo_transaction :: Transaction where
  "demo_transaction =
     \<lparr>transaction_id = 1, property_address = ''7250 Franklin Ave'', current_state = None,
      state_history = [], tasks = [], property_metadata = [], transaction_created_at = 0,
      transaction_metadata = [], state_registry = Some demo_registry\<rparr>"

definition inspection_transaction :: Transaction where
  "inspection_transaction =
     demo_transaction\<lparr>state_registry := Some (register demo_store demo_registry 6)\<rparr>"

text \<open>
  A state whose name is the empty string, registered under that name, and a Transaction
  that has entered it.
\<close>

definition nameless_registry :: StateRegistry where
  "nameless_registry = register demo_store demo_registry 7"

definition nameless_transaction :: Transaction where
  "nameless_transaction =
     demo_transaction
       \<lparr>state_registry := Some nameless_registry, current_state := Some 7,
        state_history :=
          [\<lparr>timestamp = 63871286400000000, from_state = None, to_state = [],
            transition_notes = [], transition_metadata = []\<rparr>]\<rparr>"

text \<open>Transactions whose registry also holds \<open>signing\<close>, \<open>warranty\<close> or \<open>archived\<close>.\<close>

definition signing_transaction :: Transaction where
  "signing_transaction =
     demo_transaction\<lparr>state_registry := Some (register demo_store demo_registry 8)\<rparr>"

definition warranty_transaction :: Transaction where
  "warranty_transaction =
     demo_transaction\<lparr>state_registry := Some (register demo_store demo_registry 9)\<rparr>"

definition archive_transaction :: Transaction where
  "archive_transaction = demo_transaction\<lparr>state_registry := Some archive_registry\<rparr>"

section \<open>Task status operations\<close>

text \<open>
  Claim C8. For every Task: \<^verbatim>\<open>mark_in_progress()\<close> sets the status to IN_PROGRESS when
  it is PENDING, and otherwise changes nothing; \<^verbatim>\<open>mark_completed()\<close> sets the status to
  COMPLETED and stamps \<open>completed_at\<close> with the clock's reading, from any prior status;
  \<^verbatim>\<open>mark_blocked()\<close> sets the status to BLOCKED from any prior status. None of the three
  can raise: each is a total function with no error result. Every other field is kept.
\<close>

theorem task_marks:
  "(status t = PENDING \<longrightarrow> mark_in_progress t = t\<lparr>status := IN_PROGRESS\<rparr>)
   \<and> (status t \<noteq> PENDING \<longrightarrow> mark_in_progress t = t)
   \<and> status (fst (mark_completed t w)) = COMPLETED
   \<and> completed_at (fst (mark_completed t w)) = Some (clock w (ticks w))
   \<and> fst (mark_completed t w) = t\<lparr>status := COMPLETED, completed_at := Some (clock w (ticks w))\<rparr>
   \<and> status (mark_blocked t) = BLOCKED
   \<and> mark_blocked t = t\<lparr>status := BLOCKED\<rparr>"
  by (simp add: mark_in_progress_def mark_completed_def mark_blocked_def datetime_now_def)

theorem task_marks_witness:
  "mark_in_progress
     \<lparr>task_id = 1, task_title = ''Inspect'', task_description = [], status = PENDING,
      task_created_at = 5, completed_at = None, task_assignee = None, due_date = None,
      task_dependencies = [], task_metadata = []\<rparr>
   = \<lparr>task_id = 1, task_title = ''Inspect'', task_description = [], status = IN_PROGRESS,
      task_created_at = 5, completed_at = None, task_assignee = None, due_date = None,
      task_dependencies = [], task_metadata = []\<rparr>
   \<and> mark_in_progress
     \<lparr>task_id = 1, task_title = ''Inspect'', task_description = [], status = BLOCKED,
      task_created_at = 5, completed_at = None, task_assignee = None, due_date = None,
      task_dependencies = [], task_metadata = []\<rparr>
   = \<lparr>task_id = 1, task_title = ''Inspect'', task_description = [], status = BLOCKED,
      task_created_at = 5, completed_at = None, task_assignee = None, due_date = None,
      task_dependencies = [], task_metadata = []\<rparr>"
  using
    task_marks [of "\<lparr>task_id = 1, task_title = ''Inspect'', task_description = [],
      status = PENDING, task_created_at = 5, completed_at = None, task_assignee = None,
      due_date = None, task_dependencies = [], task_metadata = []\<rparr>"]
    task_marks [of "\<lparr>task_id = 1, task_title = ''Inspect'', task_description = [],
      status = BLOCKED, task_created_at = 5, completed_at = None, task_assignee = None,
      due_date = None, task_dependencies = [], task_metadata = []\<rparr>"]
  by simp

section \<open>Validation of the registry\<close>

lemma member_dlist: "Dlist.member d x \<longleftrightarrow> x \<in> set (list_of_dlist d)"
  by (simp add: Dlist.member_def)

lemma length_filter_dlist:
  "length (filter P (list_of_dlist d)) = card {t. Dlist.member d t \<and> P t}"
proof -
  have "length (filter P (list_of_dlist d)) = card ({t. P t} \<inter> set (list_of_dlist d))"
    by (simp add: distinct_length_filter)
  also have "{t. P t} \<inter> set (list_of_dlist d) = {t. Dlist.member d t \<and> P t}"
    by (auto simp: member_dlist)
  finally show ?thesis .
qed

text \<open>The two nested loops, as one list: per registered state, its undefined targets.\<close>

lemma validate_transitions_concat:
  "validate_transitions h self =
     concat (map (\<lambda>s. map (undefined_target_error (name (h s)))
                         (filter (\<lambda>t. t \<notin> registry_keys self)
                                 (list_of_dlist (allowed_transitions (h s)))))
                 (map snd (states self)))"
proof -
  have inner: "concat (map (\<lambda>t. if map_of (states self) t = None then [f t] else []) ts)
        = map f (filter (\<lambda>t. t \<notin> registry_keys self) ts)" for f and ts :: "string list"
    by (induction ts) (auto simp: registry_keys_def map_of_eq_None_iff)
  show ?thesis
    unfolding validate_transitions_def by (simp add: inner)
qed

lemma validate_transitions_length:
  "length (validate_transitions h self)
   = (\<Sum>(k, s) \<leftarrow> states self. card (undefined_targets h self s))"
proof -
  have "length (validate_transitions h self)
        = sum_list (map (\<lambda>s. card (undefined_targets h self s)) (map snd (states self)))"
    by (simp add: validate_transitions_concat length_concat comp_def
        length_filter_dlist undefined_targets_def)
  also have "\<dots> = (\<Sum>(k, s) \<leftarrow> states self. card (undefined_targets h self s))"
    by (simp add: comp_def case_prod_unfold)
  finally show ?thesis .
qed

lemma validate_transitions_set:
  "set (validate_transitions h self)
   = {undefined_target_error (name (h s)) t | k s t.
        (k, s) \<in> set (states self) \<and> t \<in> undefined_targets h self s}"
  by (force simp: validate_transitions_concat undefined_targets_def member_dlist)

lemma demo_registry_states:
  "states demo_registry = [(''new_listing'', 0), (''under_contract'', 1), (''cancelled'', 2)]"
  by (simp add: demo_registry_def register_def demo_store_def blank_state_def)

text \<open>
  Claim C7. For every StateRegistry, \<^verbatim>\<open>validate_transitions()\<close> returns a non-empty
  list if and only if some registered state allows a transition to a name that is not a
  key of the registry. The list has one entry per registered state and undefined target of
  that state (its length is the number of such pairs, and its entries are the messages of
  exactly those pairs), and it is empty when every allowed name is registered.
\<close>

theorem validate_transitions_complete:
  "(validate_transitions h self \<noteq> []
      \<longleftrightarrow> (\<exists>(k, s) \<in> set (states self). undefined_targets h self s \<noteq> {}))
   \<and> length (validate_transitions h self)
       = (\<Sum>(k, s) \<leftarrow> states self. card (undefined_targets h self s))
   \<and> set (validate_transitions h self)
       = {undefined_target_error (name (h s)) t | k s t.
            (k, s) \<in> set (states self) \<and> t \<in> undefined_targets h self s}
   \<and> ((\<forall>(k, s) \<in> set (states self). undefined_targets h self s = {})
        \<longrightarrow> validate_transitions h self = [])"
proof -
  have ne: "validate_transitions h self \<noteq> []
      \<longleftrightarrow> (\<exists>(k, s) \<in> set (states self). undefined_targets h self s \<noteq> {})"
  proof -
    have "validate_transitions h self \<noteq> [] \<longleftrightarrow> set (validate_transitions h self) \<noteq> {}"
      by simp
    also have "\<dots> \<longleftrightarrow> (\<exists>(k, s) \<in> set (states self). undefined_targets h self s \<noteq> {})"
      unfolding validate_transitions_set by auto
    finally show ?thesis .
  qed
  moreover have "(\<forall>(k, s) \<in> set (states self). undefined_targets h self s = {})
        \<longrightarrow> validate_transitions h self = []"
    using ne by auto
  ultimately show ?thesis
    using validate_transitions_length validate_transitions_set by blast
qed

text \<open>
  In the scenario \<open>under_contract\<close> allows \<open>pending_inspection\<close>, which is not registered:
  one error. With \<open>new_listing\<close> alone and its target registered, none.
\<close>

theorem validate_transitions_complete_witness:
  "validate_transitions demo_store demo_registry
     = [undefined_target_error ''under_contract'' ''pending_inspection'']
   \<and> (\<exists>(k, s) \<in> set (states demo_registry). undefined_targets demo_store demo_registry s \<noteq> {})
   \<and> validate_transitions demo_store \<lparr>states = [(''new_listing'', 2), (''cancelled'', 2)]\<rparr> = []"
proof -
  have v: "validate_transitions demo_store demo_registry
     = [undefined_target_error ''under_contract'' ''pending_inspection'']"
    by (simp add: validate_transitions_def demo_registry_states demo_store_def blank_state_def)
  have "\<forall>(k, s) \<in> set (states \<lparr>states = [(''new_listing'', 2), (''cancelled'', 2)]\<rparr>).
          undefined_targets demo_store \<lparr>states = [(''new_listing'', 2), (''cancelled'', 2)]\<rparr> s = {}"
    by (auto simp: undefined_targets_def registry_keys_def demo_store_def blank_state_def
        Dlist.member_def)
  with v show ?thesis
    using validate_transitions_complete [of demo_store demo_registry]
      validate_transitions_complete [of demo_store
        "\<lparr>states = [(''new_listing'', 2), (''cancelled'', 2)]\<rparr>"]
    by simp
qed

section \<open>The path of a state\<close>

lemma descends_snoc:
  "descends h rs \<Longrightarrow> rs \<noteq> [] \<Longrightarrow> parent (h c) = Some (last rs) \<Longrightarrow> descends h (rs @ [c])"
  by (induction h rs rule: descends.induct) auto

lemma descends_butlast: "descends h (rs @ [c]) \<Longrightarrow> descends h rs"
  by (induction h rs rule: descends.induct) auto

lemma descends_last_parent:
  "descends h (rs @ [c]) \<Longrightarrow> rs \<noteq> [] \<Longrightarrow> parent (h c) = Some (last rs)"
  by (induction h rs rule: descends.induct) auto

text \<open>On a chain that starts at a root, the loop prepends the names of the chain.\<close>

lemma loop_on_chain:
  "descends h rs \<Longrightarrow> rs \<noteq> [] \<Longrightarrow> parent (h (hd rs)) = None \<Longrightarrow>
   get_full_path_loop h (Some (last rs)) acc = Some (map (\<lambda>r. name (h r)) rs @ acc)"
proof (induction rs arbitrary: acc rule: rev_induct)
  case Nil
  then show ?case by simp
next
  case (snoc c rs)
  show ?case
  proof (cases "rs = []")
    case True
    with snoc.prems show ?thesis
      by (simp add: get_full_path_loop.simps)
  next
    case False
    have p: "parent (h c) = Some (last rs)"
      using descends_last_parent [OF snoc.prems(1) False] .
    have d: "descends h rs" using descends_butlast [OF snoc.prems(1)] .
    have r: "parent (h (hd rs)) = None" using snoc.prems(3) False by simp
    have "get_full_path_loop h (Some (last (rs @ [c]))) acc
          = get_full_path_loop h (Some (last rs)) (name (h c) # acc)"
      by (subst get_full_path_loop.simps) (simp add: p)
    also have "\<dots> = Some (map (\<lambda>r. name (h r)) rs @ name (h c) # acc)"
      using snoc.IH [OF d False r] .
    finally show ?thesis by simp
  qed
qed

text \<open>
  A state with finitely many ancestors, none of them its own ancestor, is the end of a
  chain from a root: the parent relation on the ancestors is finite and acyclic, hence
  well-founded.
\<close>

lemma chain_exists:
  assumes fin: "finite (ancestors h s)" and acy: "acyclic_chain h s"
  shows "\<exists>rs. rs \<noteq> [] \<and> last rs = s \<and> parent (h (hd rs)) = None \<and> descends h rs"
proof -
  define R where "R = {(p, c). parent (h c) = Some p \<and> c \<in> ancestors h s}"
  have sub: "R \<subseteq> ancestors h s \<times> ancestors h s"
    unfolding R_def ancestors_def parent_rel_def
    by (auto intro: converse_rtrancl_into_rtrancl)
  have finR: "finite R"
    using sub fin by (meson finite_SigmaI finite_subset)
  have subP: "R \<subseteq> parent_rel h" unfolding R_def parent_rel_def by auto
  have "acyclic R"
  proof (rule acyclicI, rule allI, rule notI)
    fix x assume x: "(x, x) \<in> R\<^sup>+"
    then have "(x, x) \<in> (parent_rel h)\<^sup>+" using subP trancl_mono by blast
    moreover have "x \<in> ancestors h s"
      using x sub by (metis SigmaD1 subsetD tranclD)
    ultimately show False using acy unfolding acyclic_chain_def by blast
  qed
  then have wf: "wf R" using finR by (simp add: finite_acyclic_wf)
  have "c \<in> ancestors h s \<longrightarrow>
        (\<exists>rs. rs \<noteq> [] \<and> last rs = c \<and> parent (h (hd rs)) = None \<and> descends h rs)" for c
  proof (induction c rule: wf_induct_rule [OF wf])
    case (1 c)
    show ?case
    proof
      assume c: "c \<in> ancestors h s"
      show "\<exists>rs. rs \<noteq> [] \<and> last rs = c \<and> parent (h (hd rs)) = None \<and> descends h rs"
      proof (cases "parent (h c)")
        case None
        then have "[c] \<noteq> [] \<and> last [c] = c \<and> parent (h (hd [c])) = None \<and> descends h [c]"
          by simp
        then show ?thesis by blast
      next
        case (Some p)
        then have pc: "(p, c) \<in> R" using c by (simp add: R_def)
        then have "p \<in> ancestors h s" using sub by blast
        with 1 [OF pc] obtain rs where
          rs: "rs \<noteq> []" "last rs = p" "parent (h (hd rs)) = None" "descends h rs"
          by blast
        have "descends h (rs @ [c])"
          using descends_snoc [OF rs(4) rs(1)] Some rs(2) by simp
        with rs have "rs @ [c] \<noteq> [] \<and> last (rs @ [c]) = c
            \<and> parent (h (hd (rs @ [c]))) = None \<and> descends h (rs @ [c])"
          by simp
        then show ?thesis by blast
      qed
    qed
  qed
  moreover have "s \<in> ancestors h s" by (simp add: ancestors_def)
  ultimately show ?thesis by blast
qed

text \<open>
  Claim C9. For every State whose parent chain is acyclic (no ancestor of the state is
  its own ancestor; the chain is finite, as every set of Python objects is),
  \<^verbatim>\<open>get_full_path()\<close> terminates and returns the names of a sequence of states that
  starts at a root (a state without parent), in which each state is the parent of the
  next, and that ends with the state itself.
\<close>

theorem get_full_path_terminates:
  assumes "finite (ancestors h s)" and "acyclic_chain h s"
  shows "\<exists>rs. get_full_path h s = Some (map (\<lambda>r. name (h r)) rs)
           \<and> rs \<noteq> [] \<and> last rs = s \<and> parent (h (hd rs)) = None \<and> descends h rs"
proof -
  obtain rs where rs: "rs \<noteq> []" "last rs = s" "parent (h (hd rs)) = None" "descends h rs"
    using chain_exists [OF assms] by blast
  have "get_full_path h s = Some (map (\<lambda>r. name (h r)) rs)"
    using loop_on_chain [OF rs(4) rs(1) rs(3), of "[]"] rs(2)
    by (simp add: get_full_path_def)
  with rs show ?thesis by blast
qed

lemma ancestors_closed:
  assumes "s \<in> S" and "\<And>c p. c \<in> S \<Longrightarrow> parent (h c) = Some p \<Longrightarrow> p \<in> S"
  shows "ancestors h s \<subseteq> S"
proof
  fix a assume "a \<in> ancestors h s"
  then have "(a, s) \<in> (parent_rel h)\<^sup>*" by (simp add: ancestors_def)
  then show "a \<in> S"
  proof (induction rule: converse_rtrancl_induct)
    case base
    show ?case by (rule assms(1))
  next
    case (step a b)
    then show ?case using assms(2) by (auto simp: parent_rel_def)
  qed
qed

lemma ranked_no_cycle:
  assumes "\<And>c p. parent (h c) = Some p \<Longrightarrow> f p < (f c :: nat)"
  shows "(a, a) \<notin> (parent_rel h)\<^sup>+"
proof
  assume "(a, a) \<in> (parent_rel h)\<^sup>+"
  moreover have "(x, y) \<in> (parent_rel h)\<^sup>+ \<Longrightarrow> f x < f y" for x y
  proof (induction rule: trancl_induct)
    case (base y)
    then show ?case using assms by (simp add: parent_rel_def)
  next
    case (step y z)
    then show ?case using assms [of z y] by (simp add: parent_rel_def)
  qed
  ultimately show False by fastforce
qed

lemma demo_parent:
  "parent (demo_store c) = Some p \<longleftrightarrow> (c = 1 \<and> p = 3) \<or> (c = 4 \<and> p = 1)"
  by (auto simp: demo_store_def blank_state_def)

lemma demo_ancestors_finite: "finite (ancestors demo_store 4)"
proof -
  have "ancestors demo_store 4 \<subseteq> {1, 3, 4}"
    by (rule ancestors_closed) (auto simp: demo_parent)
  then show ?thesis by (rule finite_subset) simp
qed

lemma demo_acyclic_chain: "acyclic_chain demo_store 4"
  unfolding acyclic_chain_def
proof
  fix a
  show "(a, a) \<notin> (parent_rel demo_store)\<^sup>+"
    by (rule ranked_no_cycle [where f = "\<lambda>r. if r = 3 then 0 else r"])
       (auto simp: demo_parent)
qed

text \<open>The path of \<open>pending_inspection\<close> in the scenario.\<close>

theorem get_full_path_terminates_witness:
  "get_full_path demo_store 4 = Some [''active'', ''under_contract'', ''pending_inspection'']
   \<and> (\<exists>rs. get_full_path demo_store 4 = Some (map (\<lambda>r. name (demo_store r)) rs)
           \<and> rs \<noteq> [] \<and> last rs = 4 \<and> parent (demo_store (hd rs)) = None
           \<and> descends demo_store rs)"
proof -
  have "get_full_path demo_store 4
        = Some [''active'', ''under_contract'', ''pending_inspection'']"
    by (simp add: get_full_path_def get_full_path_loop.simps demo_store_def blank_state_def)
  then show ?thesis
    using get_full_path_terminates [OF demo_ancestors_finite demo_acyclic_chain] by simp
qed

section \<open>Template expansion\<close>

lemma new_task_world:
  "new_task t w = (r, w') \<Longrightarrow>
     draws w' = Suc (draws w) \<and> clock w' = clock w \<and> uuid_source w' = uuid_source w
     \<and> ticks w < ticks w' \<and> ticks w' \<le> ticks w + 2"
  by (auto simp: new_task_def uuid4_def datetime_now_def Let_def
      split: option.splits sum.splits)

lemma new_task_ok:
  "new_task t w = (Inr task, w') \<Longrightarrow>
     task = \<lparr>task_id = uuid_source w (draws w), task_title = template_title t,
             task_description = template_description t, status = PENDING,
             task_created_at = clock w (ticks w), completed_at = None,
             task_assignee = template_assignee t,
             due_date = (case days_until_due t of None \<Rightarrow> None
                         | Some d \<Rightarrow> Some (clock w (Suc (ticks w)) + d * microseconds_per_day)),
             task_dependencies = [], task_metadata = template_metadata t\<rparr>"
  by (auto simp: new_task_def uuid4_def datetime_now_def add_days_def Let_def
      split: option.splits sum.splits if_splits)

lemma new_task_error:
  "new_task t w = (Inl e, w') \<Longrightarrow>
     e = OverflowError
     \<and> (\<exists>d. days_until_due t = Some d \<and> add_days (clock w (Suc (ticks w))) d = Inl OverflowError)"
  by (auto simp: new_task_def uuid4_def datetime_now_def add_days_def Let_def
      split: option.splits sum.splits if_splits)

lemma instantiate_frame:
  "instantiate_templates ts m self w = (r, self', w') \<Longrightarrow> self' = self\<lparr>tasks := tasks self'\<rparr>"
proof (induction ts arbitrary: m self w)
  case Nil
  then show ?case by simp
next
  case (Cons t ts)
  show ?case
  proof (cases "new_task t w")
    case (Pair res w1)
    show ?thesis
    proof (cases res)
      case (Inl e)
      with Pair Cons.prems show ?thesis by simp
    next
      case (Inr task)
      with Pair Cons.prems have
        "instantiate_templates ts (AList.update (template_title t) (task_id task) m)
           (self\<lparr>tasks := AList.update (task_id task) task (tasks self)\<rparr>) w1 = (r, self', w')"
        by simp
      from Cons.IH [OF this] show ?thesis by simp
    qed
  qed
qed

lemma instantiate_error:
  "instantiate_templates ts m self w = (Inl e, self', w') \<Longrightarrow> e = OverflowError"
proof (induction ts arbitrary: m self w)
  case Nil
  then show ?case by simp
next
  case (Cons t ts)
  show ?case
  proof (cases "new_task t w")
    case (Pair res w1)
    show ?thesis
    proof (cases res)
      case (Inl e')
      with Pair Cons.prems new_task_error [of t w e' w1] show ?thesis by simp
    next
      case (Inr task)
      with Pair Cons.prems Cons.IH show ?thesis by simp
    qed
  qed
qed

lemma instantiate_ok:
  "instantiate_templates ts m self w = (Inr m', self', w') \<Longrightarrow>
     length (planned_tasks ts w) = length ts
     \<and> tasks self' = foldl store_task (tasks self) (planned_tasks ts w)
     \<and> m' = foldl (\<lambda>acc (k, v). AList.update k v acc) m
               (zip (map template_title ts) (map task_id (planned_tasks ts w)))
     \<and> draws w' = draws w + length ts \<and> clock w' = clock w \<and> uuid_source w' = uuid_source w
     \<and> ticks w \<le> ticks w' \<and> ticks w' \<le> ticks w + 2 * length ts"
proof (induction ts arbitrary: m self w)
  case Nil
  then show ?case by simp
next
  case (Cons t ts)
  show ?case
  proof (cases "new_task t w")
    case (Pair res w1)
    show ?thesis
    proof (cases res)
      case (Inl e)
      with Pair Cons.prems show ?thesis by simp
    next
      case (Inr task)
      with Pair Cons.prems have rec:
        "instantiate_templates ts (AList.update (template_title t) (task_id task) m)
           (self\<lparr>tasks := AList.update (task_id task) task (tasks self)\<rparr>) w1 = (Inr m', self', w')"
        by simp
      have nw: "draws w1 = Suc (draws w)" "clock w1 = clock w" "uuid_source w1 = uuid_source w"
        "ticks w < ticks w1" "ticks w1 \<le> ticks w + 2"
        using new_task_world [of t w res w1] Pair by simp_all
      from Cons.IH [OF rec] Pair Inr nw show ?thesis
        by (simp add: store_task_def)
    qed
  qed
qed

text \<open>The first loop stores Tasks without dependencies.\<close>

lemma instantiate_unwired:
  "instantiate_templates ts m self w = (r, self', w') \<Longrightarrow>
   map_of (tasks self') u = Some task \<Longrightarrow>
     map_of (tasks self) u = Some task \<or> task_dependencies task = []"
proof (induction ts arbitrary: m self w)
  case Nil
  then show ?case by simp
next
  case (Cons t ts)
  show ?case
  proof (cases "new_task t w")
    case (Pair res w1)
    show ?thesis
    proof (cases res)
      case (Inl e)
      with Pair Cons.prems show ?thesis by simp
    next
      case (Inr task0)
      with Pair Cons.prems(1) have rec:
        "instantiate_templates ts (AList.update (template_title t) (task_id task0) m)
           (self\<lparr>tasks := AList.update (task_id task0) task0 (tasks self)\<rparr>) w1 = (r, self', w')"
        by simp
      from Cons.IH [OF rec Cons.prems(2)]
      have "map_of (AList.update (task_id task0) task0 (tasks self)) u = Some task
          \<or> task_dependencies task = []"
        by simp
      moreover have "task_dependencies task0 = []"
        using new_task_ok [of t w task0 w1] Pair Inr by simp
      ultimately show ?thesis by (auto simp: update_conv' split: if_splits)
    qed
  qed
qed

lemma planned_nth:
  "i < length (planned_tasks ts w) \<Longrightarrow> length (planned_tasks ts w) = length ts \<Longrightarrow>
   \<exists>k. ticks w \<le> k \<and> Suc k < ticks w + 2 * length ts
     \<and> planned_tasks ts w ! i =
        \<lparr>task_id = uuid_source w (draws w + i), task_title = template_title (ts ! i),
         task_description = template_description (ts ! i), status = PENDING,
         task_created_at = clock w k, completed_at = None,
         task_assignee = template_assignee (ts ! i),
         due_date = (case days_until_due (ts ! i) of None \<Rightarrow> None
                     | Some d \<Rightarrow> Some (clock w (Suc k) + d * microseconds_per_day)),
         task_dependencies = [], task_metadata = template_metadata (ts ! i)\<rparr>"
proof (induction ts arbitrary: w i)
  case Nil
  then show ?case by simp
next
  case (Cons t ts)
  show ?case
  proof (cases "new_task t w")
    case (Pair res w1)
    show ?thesis
    proof (cases res)
      case (Inl e)
      with Pair Cons.prems show ?thesis by simp
    next
      case (Inr task)
      have nw: "draws w1 = Suc (draws w)" "clock w1 = clock w" "uuid_source w1 = uuid_source w"
        "ticks w < ticks w1" "ticks w1 \<le> ticks w + 2"
        using new_task_world [of t w res w1] Pair by simp_all
      have pl: "planned_tasks (t # ts) w = task # planned_tasks ts w1"
        using Pair Inr by simp
      show ?thesis
      proof (cases i)
        case 0
        have "planned_tasks (t # ts) w ! i = task" using pl 0 by simp
        with new_task_ok [of t w task w1] Pair Inr 0 show ?thesis
          by (intro exI [of _ "ticks w"]) simp
      next
        case (Suc j)
        have j: "j < length (planned_tasks ts w1)" "length (planned_tasks ts w1) = length ts"
          using Cons.prems pl Suc by simp_all
        from Cons.IH [OF j] obtain k where
          k: "ticks w1 \<le> k" "Suc k < ticks w1 + 2 * length ts"
          and eq: "planned_tasks ts w1 ! j =
            \<lparr>task_id = uuid_source w1 (draws w1 + j), task_title = template_title (ts ! j),
             task_description = template_description (ts ! j), status = PENDING,
             task_created_at = clock w1 k, completed_at = None,
             task_assignee = template_assignee (ts ! j),
             due_date = (case days_until_due (ts ! j) of None \<Rightarrow> None
                         | Some d \<Rightarrow> Some (clock w1 (Suc k) + d * microseconds_per_day)),
             task_dependencies = [], task_metadata = template_metadata (ts ! j)\<rparr>"
          by blast
        have "ticks w \<le> k \<and> Suc k < ticks w + 2 * length (t # ts)" using k nw by simp
        moreover have "planned_tasks (t # ts) w ! i = planned_tasks ts w1 ! j"
          using pl Suc by simp
        ultimately show ?thesis
          using eq [unfolded nw(1-3)] Suc by (intro exI [of _ k]) simp
      qed
    qed
  qed
qed

lemma add_deps_Nil [simp]: "add_deps [] = id"
  by (simp add: add_deps_def fun_eq_iff)

lemma add_deps_add_deps [simp]: "add_deps ds (add_deps es t) = add_deps (es @ ds) t"
  by (simp add: add_deps_def)

lemma update_fresh: "k \<notin> fst ` set al \<Longrightarrow> AList.update k v al = al @ [(k, v)]"
  by (induction al) auto

lemma update_present_keys: "k \<in> fst ` set al \<Longrightarrow> map fst (AList.update k v al) = map fst al"
  by (simp add: update_keys)

lemma store_fresh:
  "distinct (map task_id new) \<Longrightarrow> set (map task_id new) \<inter> fst ` set ts = {} \<Longrightarrow>
   foldl store_task ts new = ts @ map (\<lambda>t. (task_id t, t)) new"
proof (induction new arbitrary: ts)
  case Nil
  then show ?case by simp
next
  case (Cons t new)
  have t: "task_id t \<notin> fst ` set ts" using Cons.prems(2) by auto
  have st: "store_task ts t = ts @ [(task_id t, t)]"
    using update_fresh [OF t] by (simp add: store_task_def)
  have "set (map task_id new) \<inter> fst ` set (ts @ [(task_id t, t)]) = {}"
    using Cons.prems by auto
  moreover have "distinct (map task_id new)" using Cons.prems(1) by simp
  ultimately show ?case using Cons.IH [of "ts @ [(task_id t, t)]"] st by simp
qed

lemma map_of_fold_update:
  "distinct (map fst kvs) \<Longrightarrow>
   map_of (foldl (\<lambda>acc (k, v). AList.update k v acc) m kvs) = map_of m ++ map_of kvs"
proof (induction kvs arbitrary: m)
  case Nil
  then show ?case by simp
next
  case (Cons kv kvs)
  obtain k v where kv: "kv = (k, v)" by (cases kv)
  have k: "map_of kvs k = None" using Cons.prems kv by (simp add: map_of_eq_None_iff)
  have "map_of (foldl (\<lambda>acc (k, v). AList.update k v acc) m (kv # kvs))
        = map_of (AList.update k v m) ++ map_of kvs"
    using Cons.IH [of "AList.update k v m"] Cons.prems kv by simp
  also have "map_of (AList.update k v m) = (map_of m)(k \<mapsto> v)"
    by (rule update_conv')
  also have "(map_of m)(k \<mapsto> v) ++ map_of kvs = map_of m ++ map_of (kv # kvs)"
    using k kv by (auto simp: map_add_def fun_eq_iff split: option.splits)
  finally show ?case .
qed

lemma resolve_spec:
  assumes "\<forall>t \<in> set ts. \<exists>u. map_of m (template_title t) = Some u \<and> u \<in> fst ` set (tasks self)"
  shows "\<exists>tasks'. resolve_dependencies ts m self = (Inr (), self\<lparr>tasks := tasks'\<rparr>)
           \<and> map fst tasks' = map fst (tasks self)
           \<and> (\<forall>u. map_of tasks' u = map_option (add_deps (extra_deps m ts u)) (map_of (tasks self) u))"
  using assms
proof (induction ts arbitrary: self)
  case Nil
  have "resolve_dependencies [] m self = (Inr (), self\<lparr>tasks := tasks self\<rparr>)" by simp
  moreover have "\<forall>u. map_of (tasks self) u
      = map_option (add_deps (extra_deps m [] u)) (map_of (tasks self) u)"
    by (simp add: extra_deps_def option.map_id)
  ultimately show ?case by blast
next
  case (Cons t ts)
  from Cons.prems obtain u0 where u0: "map_of m (template_title t) = Some u0"
    "u0 \<in> fst ` set (tasks self)" by auto
  then obtain task0 where task0: "map_of (tasks self) u0 = Some task0"
    by (cases "map_of (tasks self) u0") (auto simp: map_of_eq_None_iff)
  have ex: "extra_deps m (t # ts) u
      = (if u = u0 then resolved m t @ extra_deps m ts u else extra_deps m ts u)" for u
    using u0 by (auto simp: extra_deps_def)
  show ?case
  proof (cases "template_dependencies t = []")
    case True
    have r0: "resolved m t = []" using True by (simp add: resolved_def map_filter_simps)
    have pre: "\<forall>t \<in> set ts. \<exists>u. map_of m (template_title t) = Some u \<and> u \<in> fst ` set (tasks self)"
      using Cons.prems by simp
    from Cons.IH [OF pre] obtain tasks' where
      "resolve_dependencies ts m self = (Inr (), self\<lparr>tasks := tasks'\<rparr>)"
      "map fst tasks' = map fst (tasks self)"
      "\<forall>u. map_of tasks' u = map_option (add_deps (extra_deps m ts u)) (map_of (tasks self) u)"
      by blast
    then have "resolve_dependencies (t # ts) m self = (Inr (), self\<lparr>tasks := tasks'\<rparr>)
        \<and> map fst tasks' = map fst (tasks self)
        \<and> (\<forall>u. map_of tasks' u
              = map_option (add_deps (extra_deps m (t # ts) u)) (map_of (tasks self) u))"
      using True by (simp add: ex r0)
    then show ?thesis by blast
  next
    case False
    define self1 where "self1 = self\<lparr>tasks := AList.update u0 (add_deps (resolved m t) task0) (tasks self)\<rparr>"
    have step: "resolve_dependencies (t # ts) m self = resolve_dependencies ts m self1"
      using False u0 task0 by (simp add: self1_def add_deps_def resolved_def)
    have keys1: "map fst (tasks self1) = map fst (tasks self)"
      using update_present_keys [OF u0(2)] by (simp add: self1_def)
    have pre: "\<forall>t \<in> set ts. \<exists>u. map_of m (template_title t) = Some u \<and> u \<in> fst ` set (tasks self1)"
    proof -
      have "fst ` set (tasks self1) = fst ` set (tasks self)"
        using keys1 by (metis image_set)
      then show ?thesis using Cons.prems by simp
    qed
    from Cons.IH [OF pre] obtain tasks' where
      r: "resolve_dependencies ts m self1 = (Inr (), self1\<lparr>tasks := tasks'\<rparr>)"
      and k: "map fst tasks' = map fst (tasks self1)"
      and m: "\<forall>u. map_of tasks' u = map_option (add_deps (extra_deps m ts u)) (map_of (tasks self1) u)"
      by blast
    have s1: "self1\<lparr>tasks := tasks'\<rparr> = self\<lparr>tasks := tasks'\<rparr>" by (simp add: self1_def)
    have look: "map_of (tasks self1) u
        = (if u = u0 then Some (add_deps (resolved m t) task0) else map_of (tasks self) u)" for u
      by (simp add: self1_def update_conv')
    have "\<forall>u. map_of tasks' u
              = map_option (add_deps (extra_deps m (t # ts) u)) (map_of (tasks self) u)"
      using m task0 by (simp add: look ex)
    with step r s1 k keys1 show ?thesis by auto
  qed
qed

lemma instantiate_links:
  assumes "instantiate_templates ts m self w = (Inr m', self', w')"
    and "\<forall>k u. map_of m k = Some u \<longrightarrow> u \<in> fst ` set (tasks self)"
  shows "(\<forall>k u. map_of m' k = Some u \<longrightarrow> u \<in> fst ` set (tasks self'))
         \<and> (\<forall>t \<in> set ts. map_of m' (template_title t) \<noteq> None)
         \<and> (\<forall>k. map_of m k \<noteq> None \<longrightarrow> map_of m' k \<noteq> None)"
  using assms
proof (induction ts arbitrary: m self w)
  case Nil
  then show ?case by simp
next
  case (Cons t ts)
  show ?case
  proof (cases "new_task t w")
    case (Pair res w1)
    show ?thesis
    proof (cases res)
      case (Inl e)
      with Pair Cons.prems show ?thesis by simp
    next
      case (Inr task)
      define m1 where "m1 = AList.update (template_title t) (task_id task) m"
      define self1 where "self1 = self\<lparr>tasks := AList.update (task_id task) task (tasks self)\<rparr>"
      have rec: "instantiate_templates ts m1 self1 w1 = (Inr m', self', w')"
        using Pair Inr Cons.prems(1) by (simp add: m1_def self1_def)
      have pre: "\<forall>k u. map_of m1 k = Some u \<longrightarrow> u \<in> fst ` set (tasks self1)"
        using Cons.prems(2) by (auto simp: m1_def self1_def update_conv' dom_update)
      from Cons.IH [OF rec pre] have
        a: "\<forall>k u. map_of m' k = Some u \<longrightarrow> u \<in> fst ` set (tasks self')"
        and b: "\<forall>t \<in> set ts. map_of m' (template_title t) \<noteq> None"
        and c: "\<forall>k. map_of m1 k \<noteq> None \<longrightarrow> map_of m' k \<noteq> None"
        by blast+
      have "map_of m1 (template_title t) \<noteq> None" by (simp add: m1_def update_conv')
      with c have "map_of m' (template_title t) \<noteq> None" by blast
      moreover have "\<forall>k. map_of m k \<noteq> None \<longrightarrow> map_of m' k \<noteq> None"
        using c by (auto simp: m1_def update_conv')
      ultimately show ?thesis using a b by simp
    qed
  qed
qed

lemma instantiate_succeeds:
  "due_dates_representable w ts \<Longrightarrow>
     \<exists>m' self' w'. instantiate_templates ts m self w = (Inr m', self', w')"
proof (induction ts arbitrary: m self w)
  case Nil
  then show ?case by simp
next
  case (Cons t ts)
  show ?case
  proof (cases "new_task t w")
    case (Pair res w1)
    have nw: "clock w1 = clock w" "ticks w < ticks w1" "ticks w1 \<le> ticks w + 2"
      using new_task_world [of t w res w1] Pair by simp_all
    show ?thesis
    proof (cases res)
      case (Inl e)
      with Pair new_task_error [of t w e w1] obtain d where
        d: "days_until_due t = Some d" "add_days (clock w (Suc (ticks w))) d = Inl OverflowError"
        by auto
      have "add_days (clock w (Suc (ticks w))) d \<noteq> Inl OverflowError"
        using Cons.prems d(1) unfolding due_dates_representable_def by simp
      with d(2) show ?thesis by simp
    next
      case (Inr task)
      have "due_dates_representable w1 ts"
        unfolding due_dates_representable_def
      proof (intro ballI allI impI)
        fix t' d k
        assume t': "t' \<in> set ts" and d: "days_until_due t' = Some d"
          and k: "ticks w1 \<le> k \<and> k < ticks w1 + 2 * length ts"
        have "ticks w \<le> k \<and> k < ticks w + 2 * length (t # ts)" using k nw by simp
        then have "add_days (clock w k) d \<noteq> Inl OverflowError"
          using Cons.prems t' d unfolding due_dates_representable_def by auto
        then show "add_days (clock w1 k) d \<noteq> Inl OverflowError" using nw by simp
      qed
      from Cons.IH [OF this] Pair Inr show ?thesis by simp
    qed
  qed
qed

text \<open>
  Once the first loop has returned, the second cannot raise: every title is recorded,
  and every recorded id is a key of \<open>tasks\<close>.
\<close>

lemma create_tasks_after_instantiate:
  assumes i: "instantiate_templates (task_templates state) [] self w = (Inr m', self1, w1)"
  shows "\<exists>tasks'. create_tasks_from_templates state self w = (Inr (), self\<lparr>tasks := tasks'\<rparr>, w1)
           \<and> map fst tasks' = map fst (tasks self1)
           \<and> (\<forall>u. map_of tasks' u
                 = map_option (add_deps (extra_deps m' (task_templates state) u))
                     (map_of (tasks self1) u))"
proof -
  have f1: "self1 = self\<lparr>tasks := tasks self1\<rparr>" using instantiate_frame [OF i] .
  have "(\<forall>k u. map_of m' k = Some u \<longrightarrow> u \<in> fst ` set (tasks self1))
         \<and> (\<forall>t \<in> set (task_templates state). map_of m' (template_title t) \<noteq> None)
         \<and> (\<forall>k. map_of [] k \<noteq> None \<longrightarrow> map_of m' k \<noteq> None)"
    using instantiate_links [OF i] by simp
  then have pre: "\<forall>t \<in> set (task_templates state).
      \<exists>u. map_of m' (template_title t) = Some u \<and> u \<in> fst ` set (tasks self1)"
    by fastforce
  from resolve_spec [OF pre] obtain tasks' where
    r: "resolve_dependencies (task_templates state) m' self1 = (Inr (), self1\<lparr>tasks := tasks'\<rparr>)"
    and k: "map fst tasks' = map fst (tasks self1)"
    and m: "\<forall>u. map_of tasks' u
              = map_option (add_deps (extra_deps m' (task_templates state) u)) (map_of (tasks self1) u)"
    by blast
  have "self1\<lparr>tasks := tasks'\<rparr> = self\<lparr>tasks := tasks'\<rparr>"
    by (subst f1) simp
  with r i have "create_tasks_from_templates state self w = (Inr (), self\<lparr>tasks := tasks'\<rparr>, w1)"
    by (simp add: create_tasks_from_templates_def)
  with k m show ?thesis by blast
qed

text \<open>Template expansion returns, or raises OverflowError; it writes \<open>tasks\<close> only.\<close>

lemma create_tasks_outcome:
  assumes "create_tasks_from_templates state self w = (r, self', w')"
  shows "(r = Inr () \<or> r = Inl OverflowError) \<and> self' = self\<lparr>tasks := tasks self'\<rparr>"
proof -
  obtain r1 self1 w1 where
    i: "instantiate_templates (task_templates state) [] self w = (r1, self1, w1)"
    by (metis prod_cases3)
  have f1: "self1 = self\<lparr>tasks := tasks self1\<rparr>" using instantiate_frame [OF i] .
  show ?thesis
  proof (cases r1)
    case (Inl e)
    then have "e = OverflowError" using instantiate_error i by blast
    with assms i Inl f1 show ?thesis by (auto simp: create_tasks_from_templates_def)
  next
    case (Inr m')
    from create_tasks_after_instantiate [OF i [unfolded Inr]] assms show ?thesis by auto
  qed
qed

lemma create_tasks_succeeds:
  assumes "due_dates_representable w (task_templates state)"
  shows "\<exists>self' w'. create_tasks_from_templates state self w = (Inr (), self', w')"
proof -
  obtain m' self1 w1 where
    "instantiate_templates (task_templates state) [] self w = (Inr m', self1, w1)"
    using instantiate_succeeds [OF assms] by blast
  from create_tasks_after_instantiate [OF this] show ?thesis by blast
qed

section \<open>Transitions\<close>

lemma transition_to_passes:
  assumes "state_registry self = Some registry" and "get registry target = Some s"
    and "current_state self = None
         \<or> (\<exists>cur. current_state self = Some cur \<and> can_transition_to (h cur) target)"
  shows "transition_to h target ns auto self w =
     (if auto then
        (case create_tasks_from_templates (h s) (entered h target ns s self w) (snd (datetime_now w)) of
           (Inl e, self3, w2) \<Rightarrow> (Inl e, self3, w2)
         | (Inr u, self3, w2) \<Rightarrow> (Inr True, self3, w2))
      else (Inr True, entered h target ns s self w, snd (datetime_now w)))"
  using assms
  by (auto simp: transition_to_def entered_def datetime_now_def Let_def)

text \<open>
  Claim C1. For every Transaction with an attached registry and a current state A, and
  every registered state B that A does not allow, \<^verbatim>\<open>transition_to(B)\<close> returns false
  and leaves the Transaction (its current state, history and tasks among the rest) and
  the world as they were.
\<close>

theorem transition_gating:
  assumes "state_registry self = Some registry"
    and "current_state self = Some a"
    and "get registry b = Some sb"
    and "\<not> Dlist.member (allowed_transitions (h a)) b"
  shows "transition_to h b ns auto self w = (Inr False, self, w)"
  using assms by (simp add: transition_to_def can_transition_to_def)

lemma demo_get:
  "get demo_registry ''new_listing'' = Some 0"
  "get demo_registry ''under_contract'' = Some 1"
  "get demo_registry ''cancelled'' = Some 2"
  by (simp_all add: get_def demo_registry_states)

theorem transition_gating_witness:
  "transition_to demo_store ''cancelled'' [] True
     (demo_transaction\<lparr>current_state := Some 0\<rparr>) demo_world
   = (Inr False, demo_transaction\<lparr>current_state := Some 0\<rparr>, demo_world)"
proof -
  have "\<not> Dlist.member (allowed_transitions (demo_store 0)) ''cancelled''"
    by (simp add: demo_store_def blank_state_def Dlist.member_def)
  then show ?thesis
    using transition_gating [of "demo_transaction\<lparr>current_state := Some 0\<rparr>" demo_registry 0
        "''cancelled''" 2 demo_store]
    by (simp add: demo_transaction_def demo_get)
qed

lemma register_get: "get (register h self s) (name (h s)) = Some s"
  by (simp add: get_def register_def update_conv')

lemma entered_fields:
  "state_history (entered h target ns s self w)
     = state_history self @
         [\<lparr>timestamp = clock w (ticks w),
           from_state = (case current_state self of
                           Some cur \<Rightarrow> Some (name (h cur)) | None \<Rightarrow> None),
           to_state = target, transition_notes = ns, transition_metadata = []\<rparr>]"
  "current_state (entered h target ns s self w) = Some s"
  "tasks (entered h target ns s self w) = tasks self"
  by (simp_all add: entered_def)

text \<open>
  A call that is let through returns True or raises OverflowError, and in both cases
  leaves the entered Transaction with some \<open>tasks\<close>.
\<close>

lemma transition_to_passed_outcome:
  assumes "state_registry self = Some registry" and "get registry target = Some s"
    and "current_state self = None
         \<or> (\<exists>cur. current_state self = Some cur \<and> can_transition_to (h cur) target)"
    and "transition_to h target ns auto self w = (r, self', w')"
  shows "(r = Inr True \<or> r = Inl OverflowError)
         \<and> self' = (entered h target ns s self w)\<lparr>tasks := tasks self'\<rparr>
         \<and> (\<not> auto \<longrightarrow> r = Inr True \<and> tasks self' = tasks self)
         \<and> (due_dates_representable (snd (datetime_now w)) (task_templates (h s))
              \<longrightarrow> r = Inr True)"
proof (cases auto)
  case False
  with assms(4) transition_to_passes [OF assms(1-3), of ns auto w] show ?thesis
    by (auto simp: entered_def)
next
  case True
  obtain r1 self1 w1 where
    c: "create_tasks_from_templates (h s) (entered h target ns s self w) (snd (datetime_now w))
        = (r1, self1, w1)"
    by (metis prod_cases3)
  have o: "(r1 = Inr () \<or> r1 = Inl OverflowError)
      \<and> self1 = (entered h target ns s self w)\<lparr>tasks := tasks self1\<rparr>"
    using create_tasks_outcome [OF c] .
  have t: "transition_to h target ns auto self w
      = (case r1 of Inl e \<Rightarrow> (Inl e, self1, w1) | Inr u \<Rightarrow> (Inr True, self1, w1))"
    using transition_to_passes [OF assms(1-3), of ns auto w] True c
    by (simp split: sum.splits)
  have rep: "due_dates_representable (snd (datetime_now w)) (task_templates (h s))
      \<Longrightarrow> r1 = Inr ()"
    using create_tasks_succeeds [of "snd (datetime_now w)" "h s" "entered h target ns s self w"] c
    by auto
  from o consider "r1 = Inr ()" | "r1 = Inl OverflowError" by blast
  then show ?thesis
  proof cases
    case 1
    with t assms(4) o True show ?thesis by auto
  next
    case 2
    with t assms(4) o True rep show ?thesis by auto
  qed
qed

text \<open>
  Claim C4, as the code has it. For every Transaction with an attached registry and no
  current state, and every target registered as state T, whatever any state allows:
  \<^verbatim>\<open>transition_to\<close> appends one StateTransition with \<open>from_state\<close> null and
  \<open>to_state\<close> the target's name, and sets the current state to T. It never returns
  false and never raises ValueError. It returns true when \<open>auto_create_tasks\<close> is false
  or every due date of T's templates is representable; the one other outcome is the
  OverflowError of a due date past the year 9999, raised after the two writes.
\<close>

theorem first_transition:
  assumes "state_registry self = Some registry"
    and "current_state self = None"
    and "get registry target = Some s"
    and "transition_to h target ns auto self w = (r, self', w')"
  shows "(r = Inr True \<or> r = Inl OverflowError)
         \<and> ((\<not> auto \<or> due_dates_representable (snd (datetime_now w)) (task_templates (h s)))
              \<longrightarrow> r = Inr True)
         \<and> state_history self' = state_history self @
              [\<lparr>timestamp = clock w (ticks w), from_state = None, to_state = target,
                transition_notes = ns, transition_metadata = []\<rparr>]
         \<and> current_state self' = Some s"
proof -
  have pass: "current_state self = None
         \<or> (\<exists>cur. current_state self = Some cur \<and> can_transition_to (h cur) target)"
    using assms(2) by simp
  have o: "(r = Inr True \<or> r = Inl OverflowError)
         \<and> self' = (entered h target ns s self w)\<lparr>tasks := tasks self'\<rparr>
         \<and> (\<not> auto \<longrightarrow> r = Inr True \<and> tasks self' = tasks self)
         \<and> (due_dates_representable (snd (datetime_now w)) (task_templates (h s))
              \<longrightarrow> r = Inr True)"
    using transition_to_passed_outcome [OF assms(1) assms(3) pass assms(4)] .
  then have e: "self' = (entered h target ns s self w)\<lparr>tasks := tasks self'\<rparr>" by blast
  have "state_history self' = state_history (entered h target ns s self w)"
    by (subst e) simp
  moreover have "current_state self' = current_state (entered h target ns s self w)"
    by (subst e) simp
  ultimately show ?thesis using o assms(2) by (auto simp: entered_fields)
qed

lemma demo_due_ok:
  "due_dates_representable (snd (datetime_now demo_world)) (task_templates (demo_store 1))"
  by (auto simp: due_dates_representable_def datetime_now_def demo_world_def demo_store_def
      blank_state_def blank_template_def add_days_def microseconds_per_day_def
      datetime_max_def Let_def)

lemma archive_get: "get archive_registry ''archived'' = Some 5"
  by (simp add: archive_registry_def get_def register_def demo_registry_states update_conv'
      demo_store_def blank_state_def)

lemma archive_transition:
  "transition_to demo_store ''archived'' [] True
     archive_transaction demo_world
   = (Inl OverflowError,
      entered demo_store ''archived'' [] 5
        archive_transaction demo_world,
      demo_world\<lparr>ticks := 3, draws := 1\<rparr>)"
proof -
  have n: "new_task ((blank_template ''Purge records'')\<lparr>days_until_due := Some 4000000\<rparr>)
             (snd (datetime_now demo_world))
           = (Inl OverflowError, demo_world\<lparr>ticks := 3, draws := 1\<rparr>)"
    by (simp add: new_task_def uuid4_def datetime_now_def demo_world_def add_days_def
        microseconds_per_day_def datetime_max_def blank_template_def Let_def)
  have t: "task_templates (demo_store 5)
      = [(blank_template ''Purge records'')\<lparr>days_until_due := Some 4000000\<rparr>]"
    by (simp add: demo_store_def blank_state_def)
  have "current_state archive_transaction = None
         \<or> (\<exists>cur. current_state archive_transaction = Some cur
               \<and> can_transition_to (demo_store cur) ''archived'')"
    by (simp add: archive_transaction_def demo_transaction_def)
  moreover have "state_registry archive_transaction = Some archive_registry"
    by (simp add: archive_transaction_def)
  ultimately have "transition_to demo_store ''archived'' [] True
       archive_transaction demo_world
     = (case create_tasks_from_templates (demo_store 5)
               (entered demo_store ''archived'' [] 5
                  archive_transaction demo_world)
               (snd (datetime_now demo_world)) of
          (Inl e, self3, w2) \<Rightarrow> (Inl e, self3, w2)
        | (Inr u, self3, w2) \<Rightarrow> (Inr True, self3, w2))"
    using transition_to_passes [where self = archive_transaction
        and registry = archive_registry and target = "''archived''" and s = 5
        and h = demo_store and ns = "[]" and auto = True and w = demo_world] archive_get
    by simp
  then show ?thesis
    by (simp add: create_tasks_from_templates_def t n)
qed

text \<open>
  The scenario's first move, made straight to \<open>under_contract\<close>, which \<open>new_listing\<close>
  alone leads to: it succeeds from the unset state.
\<close>

theorem first_transition_witness:
  "fst (transition_to demo_store ''under_contract'' [] True demo_transaction demo_world) = Inr True
   \<and> state_history (fst (snd (transition_to demo_store ''under_contract'' [] True
         demo_transaction demo_world)))
       = [\<lparr>timestamp = 63871286400000000, from_state = None, to_state = ''under_contract'',
           transition_notes = [], transition_metadata = []\<rparr>]
   \<and> current_state (fst (snd (transition_to demo_store ''under_contract'' [] True
         demo_transaction demo_world))) = Some 1"
proof -
  obtain r self' w' where
    t: "transition_to demo_store ''under_contract'' [] True demo_transaction demo_world
        = (r, self', w')"
    by (metis prod_cases3)
  have reg: "state_registry demo_transaction = Some demo_registry"
    and cur: "current_state demo_transaction = None"
    by (simp_all add: demo_transaction_def)
  from first_transition [OF reg cur demo_get(2) t] demo_due_ok
  have "r = Inr True
    \<and> state_history self'
        = [\<lparr>timestamp = 63871286400000000, from_state = None, to_state = ''under_contract'',
            transition_notes = [], transition_metadata = []\<rparr>]
    \<and> current_state self' = Some 1"
    by (simp add: demo_transaction_def demo_world_def)
  then show ?thesis by (simp add: t)
qed

text \<open>
  As stated the claim fails: entering \<open>archived\<close> from the unset state, with the
  registry attached and the target registered, does not return true. The due date of
  its template, 4000000 days after 2025-01-01, is past the last datetime.
\<close>

theorem first_transition_counterexample:
  "state_registry archive_transaction = Some archive_registry
   \<and> current_state archive_transaction = None
   \<and> get archive_registry ''archived'' = Some 5
   \<and> fst (transition_to demo_store ''archived'' [] True archive_transaction demo_world)
       \<noteq> Inr True"
proof -
  have "state_registry archive_transaction = Some archive_registry"
    and "current_state archive_transaction = None"
    by (simp_all add: archive_transaction_def demo_transaction_def)
  then show ?thesis by (simp add: archive_transition archive_get)
qed

text \<open>
  Claim C5, as the code has it. \<^verbatim>\<open>transition_to\<close> raises ValueError if and only if
  no StateRegistry is attached or the target name is not registered; the message names
  the missing registry or the unknown target, and in both cases the Transaction and the
  world are left as they were. The one other error it can raise is the OverflowError of
  a due date, and only with \<open>auto_create_tasks\<close> true, a registered target and a due
  date of its templates that is not representable; it is raised after the history entry
  was appended and the current state set.
\<close>

theorem transition_to_raises:
  assumes "transition_to h target ns auto self w = (r, self', w')"
  shows "((\<exists>msg. r = Inl (ValueError msg))
            \<longleftrightarrow> (state_registry self = None
                 \<or> (\<exists>registry. state_registry self = Some registry \<and> get registry target = None)))
         \<and> (state_registry self = None \<longrightarrow>
               r = Inl (ValueError ''State registry not set. Call set_state_registry() first.'')
               \<and> self' = self \<and> w' = w)
         \<and> (\<forall>registry. state_registry self = Some registry \<and> get registry target = None \<longrightarrow>
               r = Inl (ValueError (''Unknown state: '' @ target)) \<and> self' = self \<and> w' = w)
         \<and> (\<forall>e. r = Inl e \<longrightarrow> (\<exists>msg. e = ValueError msg) \<or> e = OverflowError)
         \<and> (r = Inl OverflowError \<longrightarrow>
               auto \<and> (\<exists>registry s. state_registry self = Some registry
                          \<and> get registry target = Some s
                          \<and> \<not> due_dates_representable (snd (datetime_now w))
                                (task_templates (h s))
                          \<and> state_history self' = state_history self @
                               [\<lparr>timestamp = clock w (ticks w),
                                 from_state = (case current_state self of
                                                 Some cur \<Rightarrow> Some (name (h cur)) | None \<Rightarrow> None),
                                 to_state = target, transition_notes = ns,
                                 transition_metadata = []\<rparr>]
                          \<and> current_state self' = Some s))"
proof (cases "state_registry self")
  case None
  with assms show ?thesis by (auto simp: transition_to_def)
next
  case (Some registry)
  show ?thesis
  proof (cases "get registry target")
    case None
    with Some assms show ?thesis by (auto simp: transition_to_def)
  next
    case tgt: (Some s)
    show ?thesis
    proof (cases "current_state self = None
         \<or> (\<exists>cur. current_state self = Some cur \<and> can_transition_to (h cur) target)")
      case True
      have o: "(r = Inr True \<or> r = Inl OverflowError)
         \<and> self' = (entered h target ns s self w)\<lparr>tasks := tasks self'\<rparr>
         \<and> (\<not> auto \<longrightarrow> r = Inr True \<and> tasks self' = tasks self)
         \<and> (due_dates_representable (snd (datetime_now w)) (task_templates (h s))
              \<longrightarrow> r = Inr True)"
        using transition_to_passed_outcome [OF Some tgt True assms] .
      then have e: "self' = (entered h target ns s self w)\<lparr>tasks := tasks self'\<rparr>" by blast
      have "state_history self' = state_history (entered h target ns s self w)"
        by (subst e) simp
      moreover have "current_state self' = current_state (entered h target ns s self w)"
        by (subst e) simp
      ultimately show ?thesis using o Some tgt by (auto simp: entered_fields)
    next
      case False
      then have "r = Inr False" using Some tgt assms
        by (auto simp: transition_to_def split: option.splits)
      with Some tgt show ?thesis by auto
    qed
  qed
qed

theorem transition_to_raises_witness:
  "fst (transition_to demo_store ''new_listing'' [] True
          (demo_transaction\<lparr>state_registry := None\<rparr>) demo_world)
     = Inl (ValueError ''State registry not set. Call set_state_registry() first.'')
   \<and> snd (transition_to demo_store ''new_listing'' [] True
          (demo_transaction\<lparr>state_registry := None\<rparr>) demo_world)
     = (demo_transaction\<lparr>state_registry := None\<rparr>, demo_world)
   \<and> fst (transition_to demo_store ''sold'' [] True demo_transaction demo_world)
     = Inl (ValueError ''Unknown state: sold'')
   \<and> snd (transition_to demo_store ''sold'' [] True demo_transaction demo_world)
     = (demo_transaction, demo_world)"
proof -
  obtain r self' w' where
    t: "transition_to demo_store ''new_listing'' [] True
          (demo_transaction\<lparr>state_registry := None\<rparr>) demo_world = (r, self', w')"
    by (metis prod_cases3)
  obtain r2 self2 w2 where
    t2: "transition_to demo_store ''sold'' [] True demo_transaction demo_world = (r2, self2, w2)"
    by (metis prod_cases3)
  have g: "get demo_registry ''sold'' = None"
    by (simp add: get_def demo_registry_states)
  have "state_registry (demo_transaction\<lparr>state_registry := None\<rparr>) = None"
    and "state_registry demo_transaction = Some demo_registry"
    by (simp_all add: demo_transaction_def)
  with transition_to_raises [OF t] transition_to_raises [OF t2] g show ?thesis
    by (simp add: t t2)
qed

text \<open>
  As stated the claim fails: with the registry attached and the target registered,
  entering \<open>archived\<close> raises, and the history and the current state have changed.
\<close>

theorem transition_to_raises_counterexample:
  "state_registry archive_transaction = Some archive_registry
   \<and> get archive_registry ''archived'' = Some 5
   \<and> fst (transition_to demo_store ''archived'' [] True archive_transaction demo_world)
       = Inl OverflowError
   \<and> state_history (fst (snd (transition_to demo_store ''archived'' [] True
         archive_transaction demo_world))) \<noteq> state_history archive_transaction
   \<and> current_state (fst (snd (transition_to demo_store ''archived'' [] True
         archive_transaction demo_world))) \<noteq> current_state archive_transaction"
proof -
  have "state_registry archive_transaction = Some archive_registry"
    and "current_state archive_transaction = None"
    by (simp_all add: archive_transaction_def demo_transaction_def)
  then show ?thesis by (simp add: archive_transition archive_get entered_fields)
qed

section \<open>The tasks a transition creates\<close>

lemma planned_ids:
  assumes "length (planned_tasks ts w) = length ts"
  shows "map task_id (planned_tasks ts w) = new_ids w (length ts)"
proof (rule nth_equalityI)
  show "length (map task_id (planned_tasks ts w)) = length (new_ids w (length ts))"
    using assms by (simp add: new_ids_def)
next
  fix i assume "i < length (map task_id (planned_tasks ts w))"
  then have i: "i < length (planned_tasks ts w)" by simp
  from planned_nth [OF i assms] obtain k where
    "planned_tasks ts w ! i =
        \<lparr>task_id = uuid_source w (draws w + i), task_title = template_title (ts ! i),
         task_description = template_description (ts ! i), status = PENDING,
         task_created_at = clock w k, completed_at = None,
         task_assignee = template_assignee (ts ! i),
         due_date = (case days_until_due (ts ! i) of None \<Rightarrow> None
                     | Some d \<Rightarrow> Some (clock w (Suc k) + d * microseconds_per_day)),
         task_dependencies = [], task_metadata = template_metadata (ts ! i)\<rparr>"
    by blast
  then have "task_id (planned_tasks ts w ! i) = uuid_source w (draws w + i)" by simp
  then show "map task_id (planned_tasks ts w) ! i = new_ids w (length ts) ! i"
    using i assms by (simp add: new_ids_def)
qed

lemma fold_update_range:
  "map_of (foldl (\<lambda>acc (k, v). AList.update k v acc) m kvs) k = Some u \<Longrightarrow>
     u \<in> snd ` set kvs \<or> map_of m k = Some u"
proof (induction kvs arbitrary: m)
  case Nil
  then show ?case by simp
next
  case (Cons kv kvs)
  obtain k' v' where kv: "kv = (k', v')" by (cases kv)
  from Cons.IH [of "AList.update k' v' m"] Cons.prems kv
  have "u \<in> snd ` set kvs \<or> map_of (AList.update k' v' m) k = Some u" by simp
  then show ?case using kv by (auto simp: update_conv' split: if_splits)
qed

lemma filter_unique:
  "i < length xs \<Longrightarrow> (\<forall>j < length xs. P (xs ! j) \<longleftrightarrow> j = i) \<Longrightarrow> filter P xs = [xs ! i]"
proof (induction xs arbitrary: i)
  case Nil
  then show ?case by simp
next
  case (Cons x xs)
  show ?case
  proof (cases i)
    case 0
    have "P x" using Cons.prems(2) 0 by auto
    moreover have "\<not> P y" if "y \<in> set xs" for y
    proof -
      from that obtain j where "j < length xs" "xs ! j = y" by (auto simp: in_set_conv_nth)
      then show ?thesis using Cons.prems(2) [rule_format, of "Suc j"] 0 by auto
    qed
    then have "filter P xs = []" by (simp add: filter_empty_conv)
    ultimately show ?thesis using 0 by simp
  next
    case (Suc i')
    have "\<not> P x" using Cons.prems(2) [rule_format, of 0] Suc by simp
    moreover have "\<forall>j < length xs. P (xs ! j) \<longleftrightarrow> j = i'"
    proof (intro allI impI)
      fix j assume "j < length xs"
      then show "P (xs ! j) \<longleftrightarrow> j = i'"
        using Cons.prems(2) [rule_format, of "Suc j"] Suc by simp
    qed
    moreover have "i' < length xs" using Cons.prems(1) Suc by simp
    ultimately show ?thesis using Cons.IH [of i'] Suc by simp
  qed
qed

text \<open>
  The tasks after a call that was let through and expanded the templates without
  overflow, when the ids drawn are fresh: the old entries, then one entry per template,
  each with the ids the second loop appended.
\<close>

lemma expansion_result:
  assumes reg: "state_registry self = Some registry" and tgt: "get registry target = Some s"
    and pass: "current_state self = None
         \<or> (\<exists>cur. current_state self = Some cur \<and> can_transition_to (h cur) target)"
    and run: "transition_to h target ns True self w = (r, self', w')"
    and nov: "r \<noteq> Inl OverflowError"
    and fresh: "fresh_ids self (new_ids w (length (task_templates (h s))))"
  defines "ts \<equiv> task_templates (h s)"
    and "new \<equiv> planned_tasks (task_templates (h s)) (snd (datetime_now w))"
    and "ids \<equiv> new_ids w (length (task_templates (h s)))"
  defines "m' \<equiv> foldl (\<lambda>acc (k, v). AList.update k v acc) [] (zip (map template_title ts) ids)"
  shows "r = Inr True \<and> length new = length ts \<and> map task_id new = ids
         \<and> (\<exists>self1. instantiate_templates ts [] (entered h target ns s self w)
                        (snd (datetime_now w)) = (Inr m', self1, w'))
         \<and> map fst (tasks self') = map fst (tasks self) @ ids
         \<and> (\<forall>u. map_of (tasks self') u
               = map_option (add_deps (extra_deps m' ts u))
                   (map_of (tasks self @ map (\<lambda>t. (task_id t, t)) new) u))"
proof -
  let ?e = "entered h target ns s self w" and ?w1 = "snd (datetime_now w)"
  have t: "transition_to h target ns True self w =
     (case create_tasks_from_templates (h s) ?e ?w1 of
        (Inl e, self3, w2) \<Rightarrow> (Inl e, self3, w2)
      | (Inr u, self3, w2) \<Rightarrow> (Inr True, self3, w2))"
    using transition_to_passes [OF reg tgt pass, of ns True w] by simp
  obtain ri self1 wi where i: "instantiate_templates ts [] ?e ?w1 = (ri, self1, wi)"
    by (metis prod_cases3)
  have "\<exists>mm. ri = Inr mm"
  proof (cases ri)
    case (Inl e)
    then have "e = OverflowError" using instantiate_error i by blast
    with Inl i t run nov show ?thesis
      by (simp add: create_tasks_from_templates_def ts_def)
  next
    case (Inr mm)
    then show ?thesis by blast
  qed
  then obtain mm where i': "instantiate_templates ts [] ?e ?w1 = (Inr mm, self1, wi)"
    using i by blast
  have dw: "draws ?w1 = draws w" "uuid_source ?w1 = uuid_source w"
    by (simp_all add: datetime_now_def)
  from instantiate_ok [OF i'] have
    len: "length new = length ts"
    and st: "tasks self1 = foldl store_task (tasks ?e) new"
    and mm: "mm = foldl (\<lambda>acc (k, v). AList.update k v acc) []
               (zip (map template_title ts) (map task_id new))"
    by (simp_all add: new_def ts_def)
  have idn: "map task_id new = ids"
    using planned_ids [of ts ?w1] len
    by (simp add: new_def ts_def ids_def new_ids_def dw)
  have mm': "mm = m'" using mm idn by (simp add: m'_def)
  have fr: "distinct (map task_id new)" "set (map task_id new) \<inter> fst ` set (tasks self) = {}"
    using fresh idn by (simp_all add: fresh_ids_def ids_def)
  have st': "tasks self1 = tasks self @ map (\<lambda>t. (task_id t, t)) new"
    using st store_fresh [OF fr] by (simp add: entered_fields)
  from create_tasks_after_instantiate [OF i' [unfolded ts_def]] obtain tasks' where
    c: "create_tasks_from_templates (h s) ?e ?w1 = (Inr (), ?e\<lparr>tasks := tasks'\<rparr>, wi)"
    and k: "map fst tasks' = map fst (tasks self1)"
    and d: "\<forall>u. map_of tasks' u
              = map_option (add_deps (extra_deps mm (task_templates (h s)) u)) (map_of (tasks self1) u)"
    by blast
  have res: "r = Inr True" "self' = ?e\<lparr>tasks := tasks'\<rparr>" "w' = wi"
    using t c run by simp_all
  have inst: "\<exists>self1. instantiate_templates ts [] ?e ?w1 = (Inr m', self1, w')"
    using i' mm' res(3) by blast
  have "map fst (tasks self') = map fst (tasks self) @ ids"
    using res k st' idn by (simp add: comp_def)
  moreover have "\<forall>u. map_of (tasks self') u
               = map_option (add_deps (extra_deps m' ts u))
                   (map_of (tasks self @ map (\<lambda>t. (task_id t, t)) new) u)"
    using res d st' mm' by (simp add: ts_def)
  ultimately show ?thesis using res(1) len idn inst by simp
qed

text \<open>A call that raises has not reached the second loop.\<close>

lemma overflow_unwired:
  assumes reg: "state_registry self = Some registry" and tgt: "get registry target = Some s"
    and pass: "current_state self = None
         \<or> (\<exists>cur. current_state self = Some cur \<and> can_transition_to (h cur) target)"
    and run: "transition_to h target ns True self w = (Inl e, self', w')"
    and look: "map_of (tasks self') u = Some task"
  shows "map_of (tasks self) u = Some task \<or> task_dependencies task = []"
proof -
  let ?e = "entered h target ns s self w" and ?w1 = "snd (datetime_now w)"
  have t: "transition_to h target ns True self w =
     (case create_tasks_from_templates (h s) ?e ?w1 of
        (Inl e, self3, w2) \<Rightarrow> (Inl e, self3, w2)
      | (Inr u, self3, w2) \<Rightarrow> (Inr True, self3, w2))"
    using transition_to_passes [OF reg tgt pass, of ns True w] by simp
  obtain ri self1 wi where
    i: "instantiate_templates (task_templates (h s)) [] ?e ?w1 = (ri, self1, wi)"
    by (metis prod_cases3)
  show ?thesis
  proof (cases ri)
    case (Inl e')
    with i t run have "self' = self1" by (simp add: create_tasks_from_templates_def)
    with instantiate_unwired [OF i] look show ?thesis by (simp add: entered_fields)
  next
    case (Inr mm)
    from create_tasks_after_instantiate [OF i [unfolded Inr]] t run show ?thesis by auto
  qed
qed

lemma new_task_ticks:
  "new_task t w = (Inr task, w') \<Longrightarrow>
     ticks w' = ticks w + (if days_until_due t = None then 1 else 2)"
  by (auto simp: new_task_def uuid4_def datetime_now_def Let_def
      split: option.splits sum.splits)

text \<open>The readings of the clock behind the i-th planned Task were made during the loop.\<close>

lemma planned_readings:
  "instantiate_templates ts m self w = (Inr m', self', w') \<Longrightarrow> i < length ts \<Longrightarrow>
   \<exists>k. ticks w \<le> k \<and> k < ticks w'
     \<and> (days_until_due (ts ! i) \<noteq> None \<longrightarrow> Suc k < ticks w')
     \<and> task_created_at (planned_tasks ts w ! i) = clock w k
     \<and> due_date (planned_tasks ts w ! i)
         = (case days_until_due (ts ! i) of None \<Rightarrow> None
            | Some d \<Rightarrow> Some (clock w (Suc k) + d * microseconds_per_day))"
proof (induction ts arbitrary: m self w i)
  case Nil
  then show ?case by simp
next
  case (Cons t ts)
  show ?case
  proof (cases "new_task t w")
    case (Pair res w1)
    show ?thesis
    proof (cases res)
      case (Inl e)
      with Pair Cons.prems show ?thesis by simp
    next
      case (Inr task)
      have rec: "instantiate_templates ts (AList.update (template_title t) (task_id task) m)
           (self\<lparr>tasks := AList.update (task_id task) task (tasks self)\<rparr>) w1 = (Inr m', self', w')"
        using Pair Inr Cons.prems(1) by simp
      have nw: "clock w1 = clock w" "ticks w < ticks w1"
        using new_task_world [of t w res w1] Pair by simp_all
      have tk: "ticks w1 = ticks w + (if days_until_due t = None then 1 else 2)"
        using new_task_ticks Pair Inr by blast
      have mono: "ticks w1 \<le> ticks w'" using instantiate_ok [OF rec] by simp
      have pl: "planned_tasks (t # ts) w = task # planned_tasks ts w1"
        using Pair Inr by simp
      show ?thesis
      proof (cases i)
        case 0
        have tko: "task_created_at task = clock w (ticks w)"
          "due_date task = (case days_until_due t of None \<Rightarrow> None
              | Some d \<Rightarrow> Some (clock w (Suc (ticks w)) + d * microseconds_per_day))"
          using new_task_ok [of t w task w1] Pair Inr by simp_all
        have "ticks w \<le> ticks w \<and> ticks w < ticks w'
            \<and> (days_until_due ((t # ts) ! i) \<noteq> None \<longrightarrow> Suc (ticks w) < ticks w')"
          using tk mono nw 0 by auto
        then show ?thesis using pl 0 tko by (intro exI [of _ "ticks w"]) simp
      next
        case (Suc j)
        then have j: "j < length ts" using Cons.prems(2) by simp
        from Cons.IH [OF rec j] obtain k where
          k: "ticks w1 \<le> k" "k < ticks w'"
            "days_until_due (ts ! j) \<noteq> None \<longrightarrow> Suc k < ticks w'"
          and c: "task_created_at (planned_tasks ts w1 ! j) = clock w1 k"
          and d: "due_date (planned_tasks ts w1 ! j)
                  = (case days_until_due (ts ! j) of None \<Rightarrow> None
                     | Some d \<Rightarrow> Some (clock w1 (Suc k) + d * microseconds_per_day))"
          by blast
        have "ticks w \<le> k" using k(1) nw(2) by simp
        then show ?thesis
          using k(2,3) c [unfolded nw(1)] d [unfolded nw(1)] pl Suc
          by (intro exI [of _ k]) simp
      qed
    qed
  qed
qed

lemma map_of_keyed_nth:
  "distinct (map f xs) \<Longrightarrow> i < length xs \<Longrightarrow>
     map_of (map (\<lambda>x. (f x, x)) xs) (f (xs ! i)) = Some (xs ! i)"
proof -
  assume d: "distinct (map f xs)" and i: "i < length xs"
  have "distinct (map fst (map (\<lambda>x. (f x, x)) xs))" using d by (simp add: comp_def)
  moreover have "(f (xs ! i), xs ! i) \<in> set (map (\<lambda>x. (f x, x)) xs)" using i by auto
  ultimately show ?thesis by (simp only: map_of_eq_Some_iff)
qed

lemma map_of_append_fresh:
  "k \<notin> fst ` set xs \<Longrightarrow> map_of (xs @ ys) k = map_of ys k"
  by (simp add: map_add_def map_of_eq_None_iff [THEN iffD2])

lemma map_of_append_old:
  "k \<notin> fst ` set ys \<Longrightarrow> map_of (xs @ ys) k = map_of xs k"
  by (simp add: map_add_def map_of_eq_None_iff [THEN iffD2] split: option.splits)

lemma extra_deps_foreign:
  assumes "u \<notin> set ids"
  shows "extra_deps (foldl (\<lambda>acc (k, v). AList.update k v acc) [] (zip ks ids)) ts u = []"
proof -
  have "map_of (foldl (\<lambda>acc (k, v). AList.update k v acc) [] (zip ks ids)) k \<noteq> Some u" for k
  proof
    assume "map_of (foldl (\<lambda>acc (k, v). AList.update k v acc) [] (zip ks ids)) k = Some u"
    from fold_update_range [OF this] have "u \<in> snd ` set (zip ks ids)" by simp
    then have "u \<in> set ids" by (auto dest: set_zip_rightD)
    with assms show False by simp
  qed
  then show ?thesis by (simp add: extra_deps_def)
qed

lemma extra_deps_subset:
  "set (extra_deps (dict_of (zip ks ids)) ts u) \<subseteq> set ids"
proof
  fix v assume "v \<in> set (extra_deps (dict_of (zip ks ids)) ts u)"
  then obtain n where "map_of (dict_of (zip ks ids)) n = Some v"
    by (auto simp: extra_deps_def resolved_def map_filter_def)
  from fold_update_range [OF this [unfolded dict_of_def]] have "v \<in> snd ` set (zip ks ids)"
    by simp
  then show "v \<in> set ids" by (auto dest: set_zip_rightD)
qed

text \<open>
  Claim C2. For every successful call of \<^verbatim>\<open>transition_to\<close> with
  \<open>auto_create_tasks\<close> true into a state with N task templates, the ids drawn being
  fresh: exactly N entries are added to \<open>tasks\<close>, after the old ones, which are kept as
  they were. The i-th new entry has the i-th id drawn and the title, description,
  assignee and metadata of the i-th template; it is PENDING and not completed; its due
  date is absent when the template gives no \<open>days_until_due\<close>, and otherwise is that
  many days after a reading of the clock made during the call.
\<close>

theorem template_expansion_count:
  assumes run: "transition_to h target ns True self w = (Inr True, self', w')"
    and reg: "state_registry self = Some registry" and tgt: "get registry target = Some s"
    and fresh: "fresh_ids self (new_ids w (length (task_templates (h s))))"
  shows "map fst (tasks self') = map fst (tasks self) @ new_ids w (length (task_templates (h s)))
    \<and> length (tasks self') = length (tasks self) + length (task_templates (h s))
    \<and> (\<forall>u. u \<notin> set (new_ids w (length (task_templates (h s))))
             \<longrightarrow> map_of (tasks self') u = map_of (tasks self) u)
    \<and> (\<forall>i < length (task_templates (h s)). \<exists>task k.
          map_of (tasks self') (new_ids w (length (task_templates (h s))) ! i) = Some task
          \<and> task_id task = new_ids w (length (task_templates (h s))) ! i
          \<and> task_title task = template_title (task_templates (h s) ! i)
          \<and> task_description task = template_description (task_templates (h s) ! i)
          \<and> task_assignee task = template_assignee (task_templates (h s) ! i)
          \<and> task_metadata task = template_metadata (task_templates (h s) ! i)
          \<and> status task = PENDING \<and> completed_at task = None
          \<and> ticks w < k \<and> k < ticks w'
          \<and> due_date task
              = (case days_until_due (task_templates (h s) ! i) of None \<Rightarrow> None
                 | Some d \<Rightarrow> Some (clock w k + d * microseconds_per_day)))"
proof -
  define ts where "ts = task_templates (h s)"
  define ids where "ids = new_ids w (length ts)"
  define new where "new = planned_tasks ts (snd (datetime_now w))"
  define m' where "m' = foldl (\<lambda>acc (k, v). AList.update k v acc) [] (zip (map template_title ts) ids)"
  have pass: "current_state self = None
         \<or> (\<exists>cur. current_state self = Some cur \<and> can_transition_to (h cur) target)"
  proof (rule ccontr)
    assume "\<not> ?thesis"
    then have "transition_to h target ns True self w = (Inr False, self, w)"
      using reg tgt by (auto simp: transition_to_def split: option.splits)
    with run show False by simp
  qed
  have nov: "Inr True \<noteq> (Inl OverflowError :: error + bool)" by simp
  from expansion_result [OF reg tgt pass run nov fresh]
  have len: "length new = length ts" and idn: "map task_id new = ids"
    and inst: "\<exists>self1. instantiate_templates ts [] (entered h target ns s self w)
                        (snd (datetime_now w)) = (Inr m', self1, w')"
    and keys: "map fst (tasks self') = map fst (tasks self) @ ids"
    and look: "\<forall>u. map_of (tasks self') u
               = map_option (add_deps (extra_deps m' ts u))
                   (map_of (tasks self @ map (\<lambda>t. (task_id t, t)) new) u)"
    unfolding ts_def ids_def new_def m'_def by blast+
  have fr: "distinct ids" "set ids \<inter> fst ` set (tasks self) = {}"
    using fresh by (simp_all add: fresh_ids_def ids_def ts_def)
  have lids: "length ids = length ts" by (simp add: ids_def new_ids_def)
  have n: "length (tasks self') = length (tasks self) + length ts"
    using keys lids by (metis length_append length_map)
  have old: "map_of (tasks self') u = map_of (tasks self) u" if "u \<notin> set ids" for u
  proof -
    have "extra_deps m' ts u = []" using extra_deps_foreign [OF that] by (simp add: m'_def)
    moreover have "u \<notin> fst ` set (map (\<lambda>t. (task_id t, t)) new)"
      using that idn by (auto simp: image_iff)
    ultimately show ?thesis
      using look by (simp add: map_of_append_old option.map_id del: map_of_append)
  qed
  have each: "\<exists>task k. map_of (tasks self') (ids ! i) = Some task
          \<and> task_id task = ids ! i
          \<and> task_title task = template_title (ts ! i)
          \<and> task_description task = template_description (ts ! i)
          \<and> task_assignee task = template_assignee (ts ! i)
          \<and> task_metadata task = template_metadata (ts ! i)
          \<and> status task = PENDING \<and> completed_at task = None
          \<and> ticks w < k \<and> k < ticks w'
          \<and> due_date task
              = (case days_until_due (ts ! i) of None \<Rightarrow> None
                 | Some d \<Rightarrow> Some (clock w k + d * microseconds_per_day))"
    if i: "i < length ts" for i
  proof -
    let ?w1 = "snd (datetime_now w)"
    have w1: "ticks ?w1 = Suc (ticks w)" "clock ?w1 = clock w"
      by (simp_all add: datetime_now_def)
    have ni: "i < length new" using i len by simp
    have idi: "ids ! i = task_id (new ! i)" using idn ni by (metis nth_map)
    have "ids ! i \<notin> fst ` set (tasks self)" using fr(2) i lids by (auto simp: disjoint_iff)
    then have "map_of (tasks self @ map (\<lambda>t. (task_id t, t)) new) (ids ! i) = Some (new ! i)"
      using map_of_keyed_nth [of task_id new i] fr(1) idn ni idi
      by (simp add: map_of_append_fresh del: map_of_append)
    then have got: "map_of (tasks self') (ids ! i)
        = Some (add_deps (extra_deps m' ts (ids ! i)) (new ! i))"
      using look by simp
    from planned_nth [OF ni [unfolded new_def] len [unfolded new_def]] obtain k0 where
      shape: "planned_tasks ts ?w1 ! i =
        \<lparr>task_id = uuid_source ?w1 (draws ?w1 + i), task_title = template_title (ts ! i),
         task_description = template_description (ts ! i), status = PENDING,
         task_created_at = clock ?w1 k0, completed_at = None,
         task_assignee = template_assignee (ts ! i),
         due_date = (case days_until_due (ts ! i) of None \<Rightarrow> None
                     | Some d \<Rightarrow> Some (clock ?w1 (Suc k0) + d * microseconds_per_day)),
         task_dependencies = [], task_metadata = template_metadata (ts ! i)\<rparr>"
      by blast
    from inst obtain self1 where
      "instantiate_templates ts [] (entered h target ns s self w) ?w1 = (Inr m', self1, w')"
      by blast
    from planned_readings [OF this i] obtain k where
      k: "ticks ?w1 \<le> k" "k < ticks w'" "days_until_due (ts ! i) \<noteq> None \<longrightarrow> Suc k < ticks w'"
      and due: "due_date (planned_tasks ts ?w1 ! i)
         = (case days_until_due (ts ! i) of None \<Rightarrow> None
            | Some d \<Rightarrow> Some (clock ?w1 (Suc k) + d * microseconds_per_day))"
      by blast
    define kk where "kk = (if days_until_due (ts ! i) = None then k else Suc k)"
    have kb: "ticks w < kk \<and> kk < ticks w'" using k w1 by (auto simp: kk_def)
    have due': "due_date (new ! i)
         = (case days_until_due (ts ! i) of None \<Rightarrow> None
            | Some d \<Rightarrow> Some (clock w kk + d * microseconds_per_day))"
      using due w1(2) by (auto simp: new_def kk_def split: option.splits)
    let ?task = "add_deps (extra_deps m' ts (ids ! i)) (new ! i)"
    have "task_id ?task = ids ! i" using idi by (simp add: add_deps_def)
    moreover have "task_title ?task = template_title (ts ! i)"
      "task_description ?task = template_description (ts ! i)"
      "task_assignee ?task = template_assignee (ts ! i)"
      "task_metadata ?task = template_metadata (ts ! i)"
      "status ?task = PENDING" "completed_at ?task = None"
      using shape by (simp_all add: add_deps_def new_def)
    moreover have "due_date ?task
         = (case days_until_due (ts ! i) of None \<Rightarrow> None
            | Some d \<Rightarrow> Some (clock w kk + d * microseconds_per_day))"
      using due' by (simp add: add_deps_def)
    ultimately show ?thesis using got kb by blast
  qed
  show ?thesis
    using keys n old each unfolding ts_def ids_def by blast
qed

lemma concat_if_singleton:
  "concat (map (\<lambda>j. if P j then [f j] else []) xs) = map f (filter P xs)"
  by (induction xs) auto

lemma map_filter_concat:
  "List.map_filter f xs = concat (map (\<lambda>x. case f x of None \<Rightarrow> [] | Some v \<Rightarrow> [v]) xs)"
  by (induction xs) (auto simp: map_filter_simps split: option.splits)

lemma batch_dependencies_alt:
  "batch_dependencies ts ids t =
     concat (map (\<lambda>n. map (\<lambda>j. ids ! j) (filter (\<lambda>j. template_title (ts ! j) = n) [0..<length ts]))
               (template_dependencies t))"
  by (simp add: batch_dependencies_def concat_if_singleton)

lemma batch_dependencies_foreign:
  "set (template_dependencies t) \<inter> set (map template_title ts) = {} \<Longrightarrow>
     batch_dependencies ts ids t = []"
proof -
  assume a: "set (template_dependencies t) \<inter> set (map template_title ts) = {}"
  have "filter (\<lambda>j. template_title (ts ! j) = n) [0..<length ts] = []"
    if "n \<in> set (template_dependencies t)" for n
    using a that by (auto simp: filter_empty_conv disjoint_iff)
  then show ?thesis by (simp add: batch_dependencies_alt)
qed

lemma batch_dependencies_subset:
  "length ids = length ts \<Longrightarrow> set (batch_dependencies ts ids t) \<subseteq> set ids"
  by (auto simp: batch_dependencies_alt)

lemma resolved_batch:
  assumes d: "distinct (map template_title ts)" and l: "length ids = length ts"
  shows "resolved (foldl (\<lambda>acc (k, v). AList.update k v acc) []
                     (zip (map template_title ts) ids)) t
         = batch_dependencies ts ids t"
proof -
  let ?ks = "map template_title ts"
  let ?m = "foldl (\<lambda>acc (k, v). AList.update k v acc) [] (zip ?ks ids)"
  have mo: "map_of ?m = map_of (zip ?ks ids)"
    using map_of_fold_update [of "zip ?ks ids" "[]"] d l by simp
  have one: "(case map_of ?m n of None \<Rightarrow> [] | Some v \<Rightarrow> [v])
      = map (\<lambda>j. ids ! j) (filter (\<lambda>j. template_title (ts ! j) = n) [0..<length ts])" for n
  proof (cases "n \<in> set ?ks")
    case False
    then have "map_of (zip ?ks ids) n = None"
      by (auto simp: map_of_eq_None_iff dest: set_zip_leftD)
    moreover have "filter (\<lambda>j. template_title (ts ! j) = n) [0..<length ts] = []"
      using False by (auto simp: filter_empty_conv)
    ultimately show ?thesis by (simp add: mo)
  next
    case True
    then obtain j0 where j0: "j0 < length ts" "?ks ! j0 = n" by (auto simp: in_set_conv_nth)
    have "map_of (zip ?ks ids) (?ks ! j0) = Some (ids ! j0)"
      using map_of_zip_nth [of ?ks ids j0] d l j0(1) by simp
    moreover have "filter (\<lambda>j. template_title (ts ! j) = n) [0..<length ts] = [[0..<length ts] ! j0]"
    proof (rule filter_unique)
      show "j0 < length [0..<length ts]" using j0 by simp
      show "\<forall>j<length [0..<length ts]. (template_title (ts ! ([0..<length ts] ! j)) = n) = (j = j0)"
        using d j0 by (auto simp: distinct_conv_nth)
    qed
    ultimately show ?thesis using j0 by (simp add: mo)
  qed
  show ?thesis
    unfolding resolved_def map_filter_concat batch_dependencies_alt
    by (simp add: one)
qed

lemma extra_deps_own:
  assumes d: "distinct (map template_title ts)" and l: "length ids = length ts"
    and di: "distinct ids" and i: "i < length ts"
  shows "extra_deps (foldl (\<lambda>acc (k, v). AList.update k v acc) []
                       (zip (map template_title ts) ids)) ts (ids ! i)
         = batch_dependencies ts ids (ts ! i)"
proof -
  let ?ks = "map template_title ts"
  let ?m = "foldl (\<lambda>acc (k, v). AList.update k v acc) [] (zip ?ks ids)"
  have mo: "map_of ?m = map_of (zip ?ks ids)"
    using map_of_fold_update [of "zip ?ks ids" "[]"] d l by simp
  have "filter (\<lambda>t. map_of ?m (template_title t) = Some (ids ! i)) ts = [ts ! i]"
  proof (rule filter_unique [OF i])
    show "\<forall>j<length ts. (map_of ?m (template_title (ts ! j)) = Some (ids ! i)) = (j = i)"
    proof (intro allI impI)
      fix j assume j: "j < length ts"
      have "map_of (zip ?ks ids) (?ks ! j) = Some (ids ! j)"
        using map_of_zip_nth [of ?ks ids j] d l j by simp
      then show "(map_of ?m (template_title (ts ! j)) = Some (ids ! i)) = (j = i)"
        using j i di l by (simp add: mo nth_eq_iff_index_eq)
    qed
  qed
  then show ?thesis
    using resolved_batch [OF d l] by (simp add: extra_deps_def)
qed

text \<open>
  Claim C3, as the code has it. Take a call of \<^verbatim>\<open>transition_to\<close> with
  \<open>auto_create_tasks\<close> true that is let through into a state, the ids drawn being
  fresh. It returns true or raises OverflowError; no name a template depends on makes
  it raise. It raises only when a due date of the templates is not representable, and
  then no dependency has been recorded: every Task of the Transaction is as it was
  before the call or has no dependencies. When it returns true, the Task made from the
  i-th template is stored under the i-th id drawn, with that template's title. Its
  dependencies are the ids the second loop appends to the Task with that id: for each
  template whose title the dict of titles maps to that id, in order, the ids the dict
  gives the names the template depends on. All of them are ids of this batch. When the
  titles of the batch are distinct, they are, for each name the i-th template depends on
  and in that order, the id of the Task made from the template of this batch with that
  title, and nothing for a name that is no title of the batch. So a template that names
  only titles outside the batch gets no dependency, and every dependency recorded is an
  id of the batch.
\<close>

theorem dependency_wiring:
  assumes reg: "state_registry self = Some registry" and tgt: "get registry target = Some s"
    and pass: "current_state self = None
         \<or> (\<exists>cur. current_state self = Some cur \<and> can_transition_to (h cur) target)"
    and run: "transition_to h target ns True self w = (r, self', w')"
    and fresh: "fresh_ids self (new_ids w (length (task_templates (h s))))"
  shows "(r = Inr True \<or> r = Inl OverflowError)
    \<and> (r = Inl OverflowError \<longrightarrow>
          \<not> due_dates_representable (snd (datetime_now w)) (task_templates (h s))
          \<and> (\<forall>u task. map_of (tasks self') u = Some task
                \<longrightarrow> map_of (tasks self) u = Some task \<or> task_dependencies task = []))
    \<and> (r = Inr True \<longrightarrow>
         (\<forall>i < length (task_templates (h s)). \<exists>task.
            map_of (tasks self') (new_ids w (length (task_templates (h s))) ! i) = Some task
            \<and> task_title task = template_title (task_templates (h s) ! i)
            \<and> task_dependencies task
                = extra_deps
                    (dict_of (zip (map template_title (task_templates (h s)))
                       (new_ids w (length (task_templates (h s))))))
                    (task_templates (h s)) (new_ids w (length (task_templates (h s))) ! i)
            \<and> set (task_dependencies task) \<subseteq> set (new_ids w (length (task_templates (h s))))
            \<and> (distinct (map template_title (task_templates (h s))) \<longrightarrow>
                 task_dependencies task
                   = batch_dependencies (task_templates (h s))
                       (new_ids w (length (task_templates (h s)))) (task_templates (h s) ! i))))
    \<and> (\<forall>t. set (template_dependencies t) \<inter> set (map template_title (task_templates (h s))) = {}
            \<longrightarrow> batch_dependencies (task_templates (h s))
                  (new_ids w (length (task_templates (h s)))) t = [])
    \<and> (\<forall>t. set (batch_dependencies (task_templates (h s))
                  (new_ids w (length (task_templates (h s)))) t)
            \<subseteq> set (new_ids w (length (task_templates (h s)))))"
proof -
  define ts where "ts = task_templates (h s)"
  define ids where "ids = new_ids w (length ts)"
  define new where "new = planned_tasks ts (snd (datetime_now w))"
  define m' where "m' = dict_of (zip (map template_title ts) ids)"
  have out: "(r = Inr True \<or> r = Inl OverflowError)
      \<and> (due_dates_representable (snd (datetime_now w)) (task_templates (h s)) \<longrightarrow> r = Inr True)"
    using transition_to_passed_outcome [OF reg tgt pass run] by blast
  have unwired: "map_of (tasks self) u = Some task \<or> task_dependencies task = []"
    if "r = Inl OverflowError" and "map_of (tasks self') u = Some task" for u task
    using overflow_unwired [OF reg tgt pass run [unfolded that(1)] that(2)] .
  have fr: "distinct ids" "set ids \<inter> fst ` set (tasks self) = {}"
    using fresh by (simp_all add: fresh_ids_def ids_def ts_def)
  have lids: "length ids = length ts" by (simp add: ids_def new_ids_def)
  have each: "\<exists>task. map_of (tasks self') (ids ! i) = Some task
          \<and> task_title task = template_title (ts ! i)
          \<and> task_dependencies task = extra_deps m' ts (ids ! i)
          \<and> set (task_dependencies task) \<subseteq> set ids
          \<and> (distinct (map template_title ts)
               \<longrightarrow> task_dependencies task = batch_dependencies ts ids (ts ! i))"
    if ok: "r = Inr True" and i: "i < length ts" for i
  proof -
    have nov: "r \<noteq> Inl OverflowError" using ok by simp
    from expansion_result [OF reg tgt pass run nov fresh]
    have len: "length new = length ts" and idn: "map task_id new = ids"
      and look: "\<forall>u. map_of (tasks self') u
                 = map_option (add_deps (extra_deps m' ts u))
                     (map_of (tasks self @ map (\<lambda>t. (task_id t, t)) new) u)"
      unfolding ts_def ids_def new_def m'_def dict_of_def by blast+
    have ni: "i < length new" using i len by simp
    have idi: "ids ! i = task_id (new ! i)" using idn ni by (metis nth_map)
    have "ids ! i \<notin> fst ` set (tasks self)" using fr(2) i lids by (auto simp: disjoint_iff)
    then have "map_of (tasks self @ map (\<lambda>t. (task_id t, t)) new) (ids ! i) = Some (new ! i)"
      using map_of_keyed_nth [of task_id new i] fr(1) idn ni idi
      by (simp add: map_of_append_fresh del: map_of_append)
    then have got: "map_of (tasks self') (ids ! i)
        = Some (add_deps (extra_deps m' ts (ids ! i)) (new ! i))"
      using look by simp
    from planned_nth [OF ni [unfolded new_def] len [unfolded new_def]]
    have shape: "task_title (new ! i) = template_title (ts ! i)"
      "task_dependencies (new ! i) = []"
      by (auto simp: new_def)
    have deps: "task_dependencies (add_deps (extra_deps m' ts (ids ! i)) (new ! i))
        = extra_deps m' ts (ids ! i)"
      and title: "task_title (add_deps (extra_deps m' ts (ids ! i)) (new ! i))
        = template_title (ts ! i)"
      using shape by (simp_all add: add_deps_def)
    have sub: "set (extra_deps m' ts (ids ! i)) \<subseteq> set ids"
      unfolding m'_def by (rule extra_deps_subset)
    have own: "extra_deps m' ts (ids ! i) = batch_dependencies ts ids (ts ! i)"
      if d: "distinct (map template_title ts)"
      using extra_deps_own [OF d lids fr(1) i] by (simp add: m'_def dict_of_def)
    have "set (task_dependencies (add_deps (extra_deps m' ts (ids ! i)) (new ! i))) \<subseteq> set ids"
      using sub by (simp only: deps)
    moreover have "task_dependencies (add_deps (extra_deps m' ts (ids ! i)) (new ! i))
        = batch_dependencies ts ids (ts ! i)" if "distinct (map template_title ts)"
      using deps own [OF that] by (rule trans)
    ultimately show ?thesis using got deps title by blast
  qed
  show ?thesis
    using out unwired each batch_dependencies_foreign batch_dependencies_subset [OF lids]
    unfolding ts_def ids_def m'_def by blast
qed

lemma demo_expansion:
  "transition_to demo_store ''under_contract'' [] True
     (demo_transaction\<lparr>current_state := Some 0\<rparr>) demo_world
   = (Inr True,
      demo_transaction
        \<lparr>current_state := Some 1,
         state_history :=
           [\<lparr>timestamp = 63871286400000000, from_state = Some ''new_listing'',
             to_state = ''under_contract'', transition_notes = [], transition_metadata = []\<rparr>],
         tasks :=
           [(100, \<lparr>task_id = 100, task_title = ''Order inspection'', task_description = [],
                   status = PENDING, task_created_at = 63871286400000001, completed_at = None,
                   task_assignee = None, due_date = Some 63871891200000002,
                   task_dependencies = [], task_metadata = []\<rparr>)]\<rparr>,
      demo_world\<lparr>ticks := 3, draws := 1\<rparr>)"
  by (simp add: transition_to_def demo_transaction_def demo_get can_transition_to_def
      Dlist.member_def demo_store_def blank_state_def blank_template_def datetime_now_def
      demo_world_def create_tasks_from_templates_def new_task_def uuid4_def add_days_def
      microseconds_per_day_def datetime_max_def Let_def)

text \<open>
  The first scenario: from \<open>new_listing\<close> into \<open>under_contract\<close>, one Task titled
  "Order inspection", due 7 days after a reading of the clock.
\<close>

theorem template_expansion_count_witness:
  "map fst (tasks (fst (snd (transition_to demo_store ''under_contract'' [] True
       (demo_transaction\<lparr>current_state := Some 0\<rparr>) demo_world)))) = [100]
   \<and> (\<exists>task k.
         map_of (tasks (fst (snd (transition_to demo_store ''under_contract'' [] True
           (demo_transaction\<lparr>current_state := Some 0\<rparr>) demo_world)))) 100 = Some task
         \<and> task_title task = ''Order inspection''
         \<and> 0 < k \<and> k < 3
         \<and> due_date task = Some (clock demo_world k + 7 * microseconds_per_day))"
proof -
  let ?tx = "demo_transaction\<lparr>current_state := Some 0\<rparr>"
  obtain self' w' where
    run: "transition_to demo_store ''under_contract'' [] True ?tx demo_world = (Inr True, self', w')"
    and w': "ticks w' = 3"
    using demo_expansion by simp
  have reg: "state_registry ?tx = Some demo_registry" by (simp add: demo_transaction_def)
  have ts: "task_templates (demo_store (Suc 0))
      = [(blank_template ''Order inspection'')\<lparr>days_until_due := Some 7\<rparr>]"
    by (simp add: demo_store_def blank_state_def)
  have ids: "new_ids demo_world (length (task_templates (demo_store (Suc 0)))) = [100]"
    by (simp add: ts new_ids_def demo_world_def)
  have fresh: "fresh_ids ?tx (new_ids demo_world (length (task_templates (demo_store 1))))"
    by (simp add: ids fresh_ids_def demo_transaction_def)
  have ids1: "new_ids demo_world (Suc 0) = [100]" and tk: "ticks demo_world = 0"
    by (simp_all add: new_ids_def demo_world_def)
  from template_expansion_count [OF run reg demo_get(2) fresh]
  have "map fst (tasks self') = [100]
    \<and> (\<exists>task k. map_of (tasks self') 100 = Some task
          \<and> task_title task = ''Order inspection''
          \<and> 0 < k \<and> k < 3
          \<and> due_date task = Some (clock demo_world k + 7 * microseconds_per_day))"
    apply (simp (no_asm_use) add: ids1 tk ts w' demo_transaction_def blank_template_def)
    apply blast
    done
  then show ?thesis by (simp only: run fst_conv snd_conv)
qed

lemma inspection_get: "get (register demo_store demo_registry 6) ''inspection'' = Some 6"
  by (simp add: get_def register_def demo_registry_states update_conv'
      demo_store_def blank_state_def)

lemma inspection_templates:
  "task_templates (demo_store 6)
     = [blank_template ''Inspect'',
        (blank_template ''Repair'')\<lparr>template_dependencies := [''Inspect'', ''Order inspection'']\<rparr>]"
  by (simp add: demo_store_def blank_state_def)

lemma inspection_expansion:
  "transition_to demo_store ''inspection'' [] True inspection_transaction demo_world
   = (Inr True,
      inspection_transaction
        \<lparr>current_state := Some 6,
         state_history :=
           [\<lparr>timestamp = 63871286400000000, from_state = None,
             to_state = ''inspection'', transition_notes = [], transition_metadata = []\<rparr>],
         tasks :=
           [(100, \<lparr>task_id = 100, task_title = ''Inspect'', task_description = [],
                   status = PENDING, task_created_at = 63871286400000001, completed_at = None,
                   task_assignee = None, due_date = None,
                   task_dependencies = [], task_metadata = []\<rparr>),
            (101, \<lparr>task_id = 101, task_title = ''Repair'', task_description = [],
                   status = PENDING, task_created_at = 63871286400000002, completed_at = None,
                   task_assignee = None, due_date = None,
                   task_dependencies = [100], task_metadata = []\<rparr>)]\<rparr>,
      demo_world\<lparr>ticks := 3, draws := 2\<rparr>)"
  by (simp add: transition_to_def inspection_transaction_def demo_transaction_def inspection_get
      inspection_templates blank_template_def datetime_now_def
      demo_world_def create_tasks_from_templates_def new_task_def uuid4_def
      map_filter_simps Let_def)

text \<open>
  The second scenario: "Repair" depends on "Inspect" of the same batch and gets its id;
  "Order inspection", a template of another state, is skipped.
\<close>

theorem dependency_wiring_witness:
  "fst (transition_to demo_store ''inspection'' [] True inspection_transaction demo_world)
     = Inr True
   \<and> (\<exists>task.
         map_of (tasks (fst (snd (transition_to demo_store ''inspection'' [] True
           inspection_transaction demo_world)))) 101 = Some task
         \<and> task_title task = ''Repair''
         \<and> task_dependencies task = [100])"
proof -
  obtain self' w' where
    run: "transition_to demo_store ''inspection'' [] True inspection_transaction demo_world
          = (Inr True, self', w')"
    using inspection_expansion by simp
  have reg: "state_registry inspection_transaction = Some (register demo_store demo_registry 6)"
    and pass: "current_state inspection_transaction = None
         \<or> (\<exists>cur. current_state inspection_transaction = Some cur
               \<and> can_transition_to (demo_store cur) ''inspection'')"
    by (simp_all add: inspection_transaction_def demo_transaction_def)
  have ids: "new_ids demo_world (length (task_templates (demo_store 6))) = [100, 101]"
    by (simp add: inspection_templates new_ids_def demo_world_def)
  have fresh: "fresh_ids inspection_transaction
      (new_ids demo_world (length (task_templates (demo_store 6))))"
    by (simp add: ids fresh_ids_def inspection_transaction_def demo_transaction_def)
  have titles: "distinct (map template_title (task_templates (demo_store 6)))"
    by (simp add: inspection_templates blank_template_def)
  have b: "batch_dependencies (task_templates (demo_store 6)) [100, 101]
             (task_templates (demo_store 6) ! 1) = [100]"
    by (simp add: inspection_templates batch_dependencies_def blank_template_def)
  have t1: "template_title (task_templates (demo_store 6) ! 1) = ''Repair''"
    by (simp add: inspection_templates blank_template_def)
  have l: "(1::nat) < length (task_templates (demo_store 6))"
    by (simp add: inspection_templates)
  from dependency_wiring [OF reg inspection_get pass run fresh] titles
  have "\<forall>i < length (task_templates (demo_store 6)). \<exists>task.
          map_of (tasks self') ([100, 101] ! i) = Some task
          \<and> task_title task = template_title (task_templates (demo_store 6) ! i)
          \<and> task_dependencies task
              = batch_dependencies (task_templates (demo_store 6)) [100, 101]
                  (task_templates (demo_store 6) ! i)"
    unfolding ids by blast
  from this [rule_format, OF l] have "\<exists>task. map_of (tasks self') 101 = Some task
         \<and> task_title task = ''Repair'' \<and> task_dependencies task = [100]"
    unfolding b t1 by simp
  then show ?thesis by (simp only: run fst_conv snd_conv)
qed

lemma signing_get: "get (register demo_store demo_registry 8) ''signing'' = Some 8"
  by (simp add: get_def register_def demo_registry_states update_conv'
      demo_store_def blank_state_def)

lemma signing_templates:
  "task_templates (demo_store 8)
     = [(blank_template ''Sign'')\<lparr>template_dependencies := [''Notarize'']\<rparr>,
        blank_template ''Sign'', blank_template ''Notarize'']"
  by (simp add: demo_store_def blank_state_def)

lemma signing_expansion:
  "transition_to demo_store ''signing'' [] True signing_transaction demo_world
   = (Inr True,
      signing_transaction
        \<lparr>current_state := Some 8,
         state_history :=
           [\<lparr>timestamp = 63871286400000000, from_state = None,
             to_state = ''signing'', transition_notes = [], transition_metadata = []\<rparr>],
         tasks :=
           [(100, \<lparr>task_id = 100, task_title = ''Sign'', task_description = [],
                   status = PENDING, task_created_at = 63871286400000001, completed_at = None,
                   task_assignee = None, due_date = None,
                   task_dependencies = [], task_metadata = []\<rparr>),
            (101, \<lparr>task_id = 101, task_title = ''Sign'', task_description = [],
                   status = PENDING, task_created_at = 63871286400000002, completed_at = None,
                   task_assignee = None, due_date = None,
                   task_dependencies = [102], task_metadata = []\<rparr>),
            (102, \<lparr>task_id = 102, task_title = ''Notarize'', task_description = [],
                   status = PENDING, task_created_at = 63871286400000003, completed_at = None,
                   task_assignee = None, due_date = None,
                   task_dependencies = [], task_metadata = []\<rparr>)]\<rparr>,
      demo_world\<lparr>ticks := 4, draws := 3\<rparr>)"
  by (simp add: transition_to_def signing_transaction_def demo_transaction_def signing_get
      signing_templates blank_template_def datetime_now_def
      demo_world_def create_tasks_from_templates_def new_task_def uuid4_def
      map_filter_simps Let_def)

lemma warranty_get: "get (register demo_store demo_registry 9) ''warranty'' = Some 9"
  by (simp add: get_def register_def demo_registry_states update_conv'
      demo_store_def blank_state_def)

lemma warranty_templates:
  "task_templates (demo_store 9)
     = [blank_template ''Inspect'',
        (blank_template ''Repair'')\<lparr>template_dependencies := [''Inspect'']\<rparr>,
        (blank_template ''Renew warranty'')\<lparr>days_until_due := Some 4000000\<rparr>]"
  by (simp add: demo_store_def blank_state_def)

lemma warranty_expansion:
  "transition_to demo_store ''warranty'' [] True warranty_transaction demo_world
   = (Inl OverflowError,
      warranty_transaction
        \<lparr>current_state := Some 9,
         state_history :=
           [\<lparr>timestamp = 63871286400000000, from_state = None,
             to_state = ''warranty'', transition_notes = [], transition_metadata = []\<rparr>],
         tasks :=
           [(100, \<lparr>task_id = 100, task_title = ''Inspect'', task_description = [],
                   status = PENDING, task_created_at = 63871286400000001, completed_at = None,
                   task_assignee = None, due_date = None,
                   task_dependencies = [], task_metadata = []\<rparr>),
            (101, \<lparr>task_id = 101, task_title = ''Repair'', task_description = [],
                   status = PENDING, task_created_at = 63871286400000002, completed_at = None,
                   task_assignee = None, due_date = None,
                   task_dependencies = [], task_metadata = []\<rparr>)]\<rparr>,
      demo_world\<lparr>ticks := 5, draws := 3\<rparr>)"
  by (simp add: transition_to_def warranty_transaction_def demo_transaction_def warranty_get
      warranty_templates blank_template_def datetime_now_def
      demo_world_def create_tasks_from_templates_def new_task_def uuid4_def add_days_def
      microseconds_per_day_def datetime_max_def map_filter_simps Let_def)

text \<open>
  As stated the claim fails, in two ways. In \<open>signing\<close> two templates are titled
  "Sign". The first depends on "Notarize", a title of the batch, yet the Task made from
  it, with id 100, gets no dependency: the id of "Notarize" lands on the Task made from
  the second "Sign", with id 101, which depends on nothing. In \<open>warranty\<close> the due
  date of the third template overflows: the call raises, and the Task made from "Repair"
  stays stored without the id of "Inspect".
\<close>

theorem dependency_wiring_counterexample:
  "get (register demo_store demo_registry 8) ''signing'' = Some 8
   \<and> get (register demo_store demo_registry 9) ''warranty'' = Some 9
   \<and> fst (transition_to demo_store ''signing'' [] True signing_transaction demo_world) = Inr True
   \<and> map (\<lambda>t. (template_title t, template_dependencies t)) (task_templates (demo_store 8))
      = [(''Sign'', [''Notarize'']), (''Sign'', []), (''Notarize'', [])]
   \<and> map (\<lambda>(u, t). (u, task_title t, task_dependencies t))
        (tasks (fst (snd (transition_to demo_store ''signing'' [] True
           signing_transaction demo_world))))
      = [(100, ''Sign'', []), (101, ''Sign'', [102]), (102, ''Notarize'', [])]
   \<and> fst (transition_to demo_store ''warranty'' [] True warranty_transaction demo_world)
      = Inl OverflowError
   \<and> map (\<lambda>t. (template_title t, template_dependencies t)) (task_templates (demo_store 9))
      = [(''Inspect'', []), (''Repair'', [''Inspect'']), (''Renew warranty'', [])]
   \<and> map (\<lambda>(u, t). (u, task_title t, task_dependencies t))
        (tasks (fst (snd (transition_to demo_store ''warranty'' [] True
           warranty_transaction demo_world))))
      = [(100, ''Inspect'', []), (101, ''Repair'', [])]"
  by (simp add: signing_get warranty_get signing_expansion signing_templates
      warranty_expansion warranty_templates blank_template_def)

section \<open>Serialization\<close>

lemma tally_codec_inverse: "codec_inverse tally_codec"
  by (auto simp: codec_inverse_def tally_codec_def)

lemma traverse_map:
  "(\<And>x. x \<in> set xs \<Longrightarrow> f (g x) = Inr x) \<Longrightarrow> traverse f (map g xs) = Inr xs"
  by (induction xs) (simp_all add: and_then_def)

lemma foldl_update_fresh:
  "distinct (map fst (acc @ kvs)) \<Longrightarrow>
     foldl (\<lambda>acc (k, v). AList.update k v acc) acc kvs = acc @ kvs"
proof (induction kvs arbitrary: acc)
  case Nil
  then show ?case by simp
next
  case (Cons kv kvs)
  obtain k v where kv: "kv = (k, v)" by (cases kv)
  have "k \<notin> fst ` set acc" using Cons.prems kv by auto
  then have u: "AList.update k v acc = acc @ [(k, v)]" by (rule update_fresh)
  have "distinct (map fst ((acc @ [(k, v)]) @ kvs))" using Cons.prems kv by simp
  from Cons.IH [OF this] show ?case using kv u by simp
qed

lemma dict_of_distinct: "distinct (map fst kvs) \<Longrightarrow> dict_of kvs = kvs"
  using foldl_update_fresh [of "[]" kvs] by (simp add: dict_of_def)

lemma status_roundtrip: "TaskStatus_of (PStr (status_value s)) = Inr s"
  by (cases s) (simp_all add: TaskStatus_of_def status_value_def)

lemma UUID_str: "codec_inverse c \<Longrightarrow> UUID c (PStr (str_of_uuid c u)) = Inr u"
  by (simp add: UUID_def codec_inverse_def)

lemma fromisoformat_isoformat:
  "codec_inverse c \<Longrightarrow> datetime_fromisoformat c (PStr (isoformat c d)) = Inr d"
  by (simp add: datetime_fromisoformat_def codec_inverse_def)

lemma optional_datetime_roundtrip:
  assumes "codec_inverse c" and "map_of data k = Some (optional_isoformat c d)"
  shows "optional_datetime c data k = Inr d"
proof (cases d)
  case None
  with assms(2) show ?thesis
    by (simp add: optional_datetime_def dict_get_def optional_isoformat_def)
next
  case (Some t)
  have "isoformat c t \<noteq> []" using assms(1) by (simp add: codec_inverse_def)
  with assms Some show ?thesis
    by (simp add: optional_datetime_def dict_get_def optional_isoformat_def getitem_def
        and_then_def fromisoformat_isoformat)
qed

lemma optional_str_roundtrip: "expect_optional_str (optional_str v) = Inr v"
  by (cases v) (simp_all add: expect_optional_str_def optional_str_def)

lemma Task_roundtrip:
  assumes c: "codec_inverse c"
  shows "Task_from_dict c (Task_to_dict c t) = Inr t"
proof -
  have deps: "traverse (UUID c) (map (\<lambda>dep_id. PStr (str_of_uuid c dep_id)) (task_dependencies t))
      = Inr (task_dependencies t)"
    by (rule traverse_map) (simp add: UUID_str [OF c])
  have ca: "optional_datetime c (Task_to_dict c t) ''completed_at'' = Inr (completed_at t)"
    by (rule optional_datetime_roundtrip [OF c]) (simp add: Task_to_dict_def)
  have du: "optional_datetime c (Task_to_dict c t) ''due_date'' = Inr (due_date t)"
    by (rule optional_datetime_roundtrip [OF c]) (simp add: Task_to_dict_def)
  have g: "getitem (Task_to_dict c t) ''id'' = Inr (PStr (str_of_uuid c (task_id t)))"
    "getitem (Task_to_dict c t) ''title'' = Inr (PStr (task_title t))"
    "getitem (Task_to_dict c t) ''description'' = Inr (PStr (task_description t))"
    "getitem (Task_to_dict c t) ''status'' = Inr (PStr (status_value (status t)))"
    "getitem (Task_to_dict c t) ''created_at'' = Inr (PStr (isoformat c (task_created_at t)))"
    "dict_get (Task_to_dict c t) ''assignee'' PNone = optional_str (task_assignee t)"
    "dict_get (Task_to_dict c t) ''dependencies'' (PList [])
       = PList (map (\<lambda>dep_id. PStr (str_of_uuid c dep_id)) (task_dependencies t))"
    "dict_get (Task_to_dict c t) ''metadata'' (PDict []) = PDict (task_metadata t)"
    by (simp_all add: Task_to_dict_def getitem_def dict_get_def)
  show ?thesis
    unfolding Task_from_dict_def
    by (simp add: g ca du deps and_then_def UUID_str [OF c] fromisoformat_isoformat [OF c]
        status_roundtrip optional_str_roundtrip expect_str_def expect_list_def expect_dict_def)
qed

lemma StateTransition_roundtrip:
  assumes c: "codec_inverse c"
  shows "StateTransition_from_dict c (StateTransition_to_dict c t) = Inr t"
proof -
  have g: "getitem (StateTransition_to_dict c t) ''timestamp'' = Inr (PStr (isoformat c (timestamp t)))"
    "dict_get (StateTransition_to_dict c t) ''from_state'' PNone = optional_str (from_state t)"
    "getitem (StateTransition_to_dict c t) ''to_state'' = Inr (PStr (to_state t))"
    "dict_get (StateTransition_to_dict c t) ''notes'' (PStr []) = PStr (transition_notes t)"
    "dict_get (StateTransition_to_dict c t) ''metadata'' (PDict []) = PDict (transition_metadata t)"
    by (simp_all add: StateTransition_to_dict_def getitem_def dict_get_def)
  show ?thesis
    unfolding StateTransition_from_dict_def
    by (simp add: g and_then_def fromisoformat_isoformat [OF c] optional_str_roundtrip
        expect_str_def expect_dict_def)
qed

lemma and_then_simps:
  "and_then (Inr x) f = f x" "and_then (Inl e) f = Inl e"
  by (simp_all add: and_then_def)

lemma expect_simps:
  "expect_str (PStr s) = Inr s" "expect_list (PList vs) = Inr vs"
  "expect_dict (PDict kvs) = Inr kvs"
  by (simp_all add: expect_str_def expect_list_def expect_dict_def)

lemma foldl_update_subset:
  "set (foldl (\<lambda>acc (k, v). AList.update k v acc) acc kvs) \<subseteq> set acc \<union> set kvs"
proof (induction kvs arbitrary: acc)
  case Nil
  then show ?case by simp
next
  case (Cons kv kvs)
  obtain k v where kv: "kv = (k, v)" by (cases kv)
  have "set (AList.update k v acc) \<subseteq> insert (k, v) (set acc)"
    by (induction acc) auto
  with Cons.IH [of "AList.update k v acc"] kv show ?case by auto
qed

lemma dict_of_subset: "set (dict_of kvs) \<subseteq> set kvs"
  using foldl_update_subset [of "[]" kvs] by (simp add: dict_of_def)

lemma traverse_image:
  assumes "\<And>p. f (g p) = Inr p" and "\<forall>y \<in> set ys. \<exists>p. y = g p"
  shows "\<exists>ps. traverse f ys = Inr ps \<and> map g ps = ys"
  using assms(2)
proof (induction ys)
  case Nil
  then show ?case by simp
next
  case (Cons y ys)
  then obtain p ps where "y = g p" "traverse f ys = Inr ps" "map g ps = ys" by auto
  then have "traverse f (y # ys) = Inr (p # ps) \<and> map g (p # ps) = y # ys"
    using assms(1) by (simp add: and_then_def)
  then show ?case by (intro exI [of _ "p # ps"])
qed

text \<open>
  What \<^verbatim>\<open>Transaction.from_dict\<close> makes of the output of \<^verbatim>\<open>to_dict\<close>: every
  serialized field comes back, the registry given is attached, and the current state is
  what the registry holds under the state's name, or nothing when the name is empty.
\<close>

lemma Transaction_from_to_dict:
  assumes c: "codec_inverse c"
  shows "\<exists>ts. Transaction_from_dict c (Transaction_to_dict c h x) registry
           = Inr (x\<lparr>tasks := ts, state_registry := Some registry,
                    current_state :=
                      (case current_state x of None \<Rightarrow> None
                       | Some cur \<Rightarrow> if name (h cur) = [] then None
                                     else get registry (name (h cur)))\<rparr>)
         \<and> (distinct (map fst (tasks x)) \<longrightarrow> ts = tasks x)"
proof -
  let ?ser = "\<lambda>(tid, task). (str_of_uuid c tid, PDict (Task_to_dict c task))"
  let ?parse = "\<lambda>(tid, task_data).
      and_then (UUID c (PStr tid)) (\<lambda>u.
      and_then (and_then (expect_dict task_data) (Task_from_dict c)) (\<lambda>task. Inr (u, task)))"
  let ?items = "dict_of (map ?ser (tasks x))"
  have ps: "?parse (?ser p) = Inr p" for p
    by (cases p) (simp add: and_then_def UUID_str [OF c] expect_dict_def Task_roundtrip [OF c])
  have "\<forall>y \<in> set ?items. \<exists>p. y = ?ser p"
  proof
    fix y assume "y \<in> set ?items"
    then have "y \<in> ?ser ` set (tasks x)"
      using dict_of_subset [of "map ?ser (tasks x)"] by auto
    then show "\<exists>p. y = ?ser p" by (rule imageE) (rule exI)
  qed
  from traverse_image [of ?parse ?ser, OF ps this] obtain items where
    tr: "traverse ?parse ?items = Inr items" and im: "map ?ser items = ?items"
    by blast
  have inj: "inj ?ser"
  proof (rule injI)
    fix p q assume "?ser p = ?ser q"
    then have "?parse (?ser p) = ?parse (?ser q)" by simp
    then show "p = q" by (simp only: ps) simp
  qed
  have same: "dict_of items = tasks x" if d: "distinct (map fst (tasks x))"
  proof -
    have "inj (str_of_uuid c)"
    proof (rule injI)
      fix u v assume "str_of_uuid c u = str_of_uuid c v"
      then have "uuid_of_str c (str_of_uuid c u) = uuid_of_str c (str_of_uuid c v)" by simp
      then show "u = v" using c by (simp add: codec_inverse_def)
    qed
    then have "distinct (map (str_of_uuid c) (map fst (tasks x)))"
      using d by (auto simp: distinct_map inj_on_def dest: injD)
    moreover have "map fst (map ?ser (tasks x)) = map (str_of_uuid c) (map fst (tasks x))"
      by (simp add: case_prod_unfold)
    ultimately have "distinct (map fst (map ?ser (tasks x)))" by (simp only:)
    then have "?items = map ?ser (tasks x)" by (rule dict_of_distinct)
    then have "items = tasks x" using im inj by (simp add: inj_map_eq_map)
    then show ?thesis using d by (simp add: dict_of_distinct)
  qed
  have hist: "traverse (\<lambda>t. and_then (expect_dict t) (StateTransition_from_dict c))
                (map (\<lambda>t. PDict (StateTransition_to_dict c t)) (state_history x))
              = Inr (state_history x)"
    by (rule traverse_map)
       (simp add: and_then_def expect_dict_def StateTransition_roundtrip [OF c])
  have g: "getitem (Transaction_to_dict c h x) ''id'' = Inr (PStr (str_of_uuid c (transaction_id x)))"
    "getitem (Transaction_to_dict c h x) ''property_address'' = Inr (PStr (property_address x))"
    "dict_get (Transaction_to_dict c h x) ''state_history'' (PList [])
       = PList (map (\<lambda>t. PDict (StateTransition_to_dict c t)) (state_history x))"
    "dict_get (Transaction_to_dict c h x) ''tasks'' (PDict []) = PDict ?items"
    "dict_get (Transaction_to_dict c h x) ''property_metadata'' (PDict []) = PDict (property_metadata x)"
    "getitem (Transaction_to_dict c h x) ''created_at''
       = Inr (PStr (isoformat c (transaction_created_at x)))"
    "dict_get (Transaction_to_dict c h x) ''metadata'' (PDict []) = PDict (transaction_metadata x)"
    "dict_get (Transaction_to_dict c h x) ''current_state'' PNone
       = (case current_state x of Some cur \<Rightarrow> PStr (name (h cur)) | None \<Rightarrow> PNone)"
    by (simp_all add: Transaction_to_dict_def getitem_def dict_get_def)
  have "Transaction_from_dict c (Transaction_to_dict c h x) registry
           = Inr (x\<lparr>tasks := dict_of items, state_registry := Some registry,
                    current_state :=
                      (case current_state x of None \<Rightarrow> None
                       | Some cur \<Rightarrow> if name (h cur) = [] then None
                                     else get registry (name (h cur)))\<rparr>)"
    unfolding Transaction_from_dict_def
    by (simp add: g hist tr and_then_simps expect_simps UUID_str [OF c]
        fromisoformat_isoformat [OF c] set_state_registry_def Let_def
        split: option.splits)
  with same show ?thesis by blast
qed

lemma template_roundtrip: "TaskTemplate_of_kwargs (template_to_dict tt) = Inr tt"
proof -
  have deps: "traverse expect_str (map PStr (template_dependencies tt))
      = Inr (template_dependencies tt)"
    by (rule traverse_map) (simp add: expect_str_def)
  have d: "expect_optional_int (case days_until_due tt of Some d \<Rightarrow> PInt d | None \<Rightarrow> PNone)
      = Inr (days_until_due tt)"
    by (cases "days_until_due tt") (simp_all add: expect_optional_int_def)
  show ?thesis
    unfolding TaskTemplate_of_kwargs_def
    by (simp add: template_to_dict_def dict_get_def and_then_simps expect_simps deps d
        optional_str_roundtrip)
qed

text \<open>
  What \<^verbatim>\<open>State.from_dict\<close> makes of the output of \<^verbatim>\<open>to_dict\<close>: the State without
  its children, its parent what the registry holds under the parent's name, or nothing
  when that name is empty.
\<close>

lemma State_from_to_dict:
  "State_from_dict (State_to_dict h s) registry
     = Inr (s\<lparr>children := [],
              parent := (case parent s of None \<Rightarrow> None
                         | Some p \<Rightarrow> if name (h p) = [] then None
                                     else map_of (states registry) (name (h p)))\<rparr>)"
proof -
  have al: "traverse expect_str (map PStr (list_of_dlist (allowed_transitions s)))
      = Inr (list_of_dlist (allowed_transitions s))"
    by (rule traverse_map) (simp add: expect_str_def)
  have tt: "traverse (\<lambda>tt. and_then (expect_dict tt) TaskTemplate_of_kwargs)
              (map (\<lambda>tt. PDict (template_to_dict tt)) (task_templates s))
            = Inr (task_templates s)"
    by (rule traverse_map) (simp add: and_then_def expect_dict_def template_roundtrip)
  have g: "getitem (State_to_dict h s) ''name'' = Inr (PStr (name s))"
    "getitem (State_to_dict h s) ''display_name'' = Inr (PStr (display_name s))"
    "dict_get (State_to_dict h s) ''description'' (PStr []) = PStr (state_description s)"
    "dict_get (State_to_dict h s) ''allowed_transitions'' (PList [])
       = PList (map PStr (list_of_dlist (allowed_transitions s)))"
    "dict_get (State_to_dict h s) ''task_templates'' (PList [])
       = PList (map (\<lambda>tt. PDict (template_to_dict tt)) (task_templates s))"
    "dict_get (State_to_dict h s) ''metadata'' (PDict []) = PDict (state_metadata s)"
    "dict_get (State_to_dict h s) ''parent'' PNone
       = (case parent s of Some p \<Rightarrow> PStr (name (h p)) | None \<Rightarrow> PNone)"
    by (simp_all add: State_to_dict_def getitem_def dict_get_def)
  show ?thesis
    unfolding State_from_dict_def
    by (cases "parent s")
       (auto simp: g al tt and_then_simps expect_simps Let_def split: option.splits)
qed

text \<open>
  Claim C6, as the code has it. With string forms that parse back (\<open>codec_inverse\<close>):
  for every Task and every StateTransition, \<^verbatim>\<open>from_dict(to_dict(x))\<close> is \<open>x\<close>, field
  for field, absent optional fields and the dependency-id list included. For every
  Transaction whose \<open>tasks\<close> is a dict (no id twice) and whose current state is unset, or
  is a state with a non-empty name that the registry given holds under that name,
  \<^verbatim>\<open>from_dict(to_dict(x), registry)\<close> is \<open>x\<close> with that registry attached.
\<close>

theorem serialization_roundtrip:
  assumes "codec_inverse c"
  shows "Task_from_dict c (Task_to_dict c t) = Inr t
    \<and> StateTransition_from_dict c (StateTransition_to_dict c tr) = Inr tr
    \<and> (distinct (map fst (tasks x))
        \<and> (current_state x = None
           \<or> (\<exists>cur. current_state x = Some cur \<and> name (h cur) \<noteq> []
                  \<and> get registry (name (h cur)) = Some cur))
        \<longrightarrow> Transaction_from_dict c (Transaction_to_dict c h x) registry
              = Inr (x\<lparr>state_registry := Some registry\<rparr>))"
proof -
  have "Transaction_from_dict c (Transaction_to_dict c h x) registry
              = Inr (x\<lparr>state_registry := Some registry\<rparr>)"
    if d: "distinct (map fst (tasks x))"
      and cs: "current_state x = None
           \<or> (\<exists>cur. current_state x = Some cur \<and> name (h cur) \<noteq> []
                  \<and> get registry (name (h cur)) = Some cur)"
  proof -
    from Transaction_from_to_dict [OF assms, of h x registry] d
    have "Transaction_from_dict c (Transaction_to_dict c h x) registry
           = Inr (x\<lparr>tasks := tasks x, state_registry := Some registry,
                    current_state :=
                      (case current_state x of None \<Rightarrow> None
                       | Some cur \<Rightarrow> if name (h cur) = [] then None
                                     else get registry (name (h cur)))\<rparr>)"
      by auto
    moreover have "(case current_state x of None \<Rightarrow> None
                       | Some cur \<Rightarrow> if name (h cur) = [] then None
                                     else get registry (name (h cur))) = current_state x"
      using cs by auto
    ultimately show ?thesis by simp
  qed
  then show ?thesis
    using Task_roundtrip [OF assms] StateTransition_roundtrip [OF assms] by blast
qed

theorem serialization_roundtrip_witness:
  "Task_from_dict tally_codec (Task_to_dict tally_codec
      \<lparr>task_id = 100, task_title = ''Repair'', task_description = [], status = COMPLETED,
       task_created_at = 2, completed_at = Some 5, task_assignee = None, due_date = None,
       task_dependencies = [101, 102], task_metadata = []\<rparr>)
     = Inr \<lparr>task_id = 100, task_title = ''Repair'', task_description = [], status = COMPLETED,
       task_created_at = 2, completed_at = Some 5, task_assignee = None, due_date = None,
       task_dependencies = [101, 102], task_metadata = []\<rparr>
   \<and> Transaction_from_dict tally_codec
       (Transaction_to_dict tally_codec demo_store (demo_transaction\<lparr>current_state := Some 0\<rparr>))
       demo_registry
     = Inr (demo_transaction\<lparr>current_state := Some 0\<rparr>)"
proof -
  let ?x = "demo_transaction\<lparr>current_state := Some 0\<rparr>"
  have d: "distinct (map fst (tasks ?x))" by (simp add: demo_transaction_def)
  have cs: "current_state ?x = None
           \<or> (\<exists>cur. current_state ?x = Some cur \<and> name (demo_store cur) \<noteq> []
                  \<and> get demo_registry (name (demo_store cur)) = Some cur)"
    by (simp add: demo_get demo_store_def blank_state_def)
  have r: "?x\<lparr>state_registry := Some demo_registry\<rparr> = ?x" by (simp add: demo_transaction_def)
  from serialization_roundtrip [OF tally_codec_inverse, of _ _ ?x demo_store demo_registry] d cs r
  show ?thesis by simp
qed

lemma nameless_get: "get nameless_registry [] = Some 7"
  by (simp add: nameless_registry_def get_def register_def demo_registry_states update_conv'
      demo_store_def blank_state_def)

text \<open>
  As stated the claim fails. A state named by the empty string can be registered and
  entered; the registry then contains every name the Transaction refers to, yet the
  Transaction comes back with no current state: \<^verbatim>\<open>if current_state_name:\<close> takes
  the empty name for an absent one.
\<close>

theorem serialization_roundtrip_counterexample:
  "codec_inverse tally_codec
   \<and> state_registry nameless_transaction = Some nameless_registry
   \<and> current_state nameless_transaction = Some 7
   \<and> get nameless_registry (name (demo_store 7)) = Some 7
   \<and> Transaction_from_dict tally_codec
       (Transaction_to_dict tally_codec demo_store nameless_transaction) nameless_registry
     = Inr (nameless_transaction\<lparr>current_state := None\<rparr>)
   \<and> Transaction_from_dict tally_codec
       (Transaction_to_dict tally_codec demo_store nameless_transaction) nameless_registry
     \<noteq> Inr nameless_transaction"
proof -
  have n: "name (demo_store 7) = []" by (simp add: demo_store_def blank_state_def)
  have f: "state_registry nameless_transaction = Some nameless_registry"
    "current_state nameless_transaction = Some 7"
    "distinct (map fst (tasks nameless_transaction))"
    by (simp_all add: nameless_transaction_def demo_transaction_def)
  from Transaction_from_to_dict [OF tally_codec_inverse, of demo_store nameless_transaction
      nameless_registry] f n
  have "Transaction_from_dict tally_codec
       (Transaction_to_dict tally_codec demo_store nameless_transaction) nameless_registry
     = Inr (nameless_transaction\<lparr>tasks := tasks nameless_transaction,
              state_registry := Some nameless_registry, current_state := None\<rparr>)"
    by auto
  moreover have "nameless_transaction\<lparr>tasks := tasks nameless_transaction,
              state_registry := Some nameless_registry, current_state := None\<rparr>
      = nameless_transaction\<lparr>current_state := None\<rparr>"
    using f(1) by (simp add: nameless_transaction_def)
  ultimately have eq: "Transaction_from_dict tally_codec
       (Transaction_to_dict tally_codec demo_store nameless_transaction) nameless_registry
     = Inr (nameless_transaction\<lparr>current_state := None\<rparr>)"
    by (simp only:)
  have ne: "nameless_transaction\<lparr>current_state := None\<rparr> \<noteq> nameless_transaction"
    using f(2) by (metis Transaction.select_convs(3) Transaction.surjective
        Transaction.update_convs(3) option.distinct(1))
  show ?thesis using eq ne f(1,2) n nameless_get tally_codec_inverse by simp
qed

text \<open>
  Claim C10. Deserialization does not raise on a name it cannot resolve. For every
  serialized Transaction whose current state's name is not registered in the registry
  given, \<^verbatim>\<open>Transaction.from_dict\<close> returns a Transaction with no current state (and
  that registry attached). For every serialized State whose parent's name is not
  registered, \<^verbatim>\<open>State.from_dict\<close> returns the State with no parent (and no
  children, which are not serialized).
\<close>

theorem unresolved_references:
  "(codec_inverse c \<and> current_state x = Some cur \<and> get registry (name (h cur)) = None
      \<longrightarrow> (\<exists>y. Transaction_from_dict c (Transaction_to_dict c h x) registry = Inr y
               \<and> current_state y = None \<and> state_registry y = Some registry))
   \<and> (parent s = Some p \<and> get registry (name (h p)) = None
      \<longrightarrow> State_from_dict (State_to_dict h s) registry
            = Inr (s\<lparr>children := [], parent := None\<rparr>))"
proof (intro conjI impI)
  assume a: "codec_inverse c \<and> current_state x = Some cur \<and> get registry (name (h cur)) = None"
  from Transaction_from_to_dict [of c h x registry] a obtain ts where
    "Transaction_from_dict c (Transaction_to_dict c h x) registry
           = Inr (x\<lparr>tasks := ts, state_registry := Some registry,
                    current_state :=
                      (case current_state x of None \<Rightarrow> None
                       | Some cur \<Rightarrow> if name (h cur) = [] then None
                                     else get registry (name (h cur)))\<rparr>)"
    by blast
  with a show "\<exists>y. Transaction_from_dict c (Transaction_to_dict c h x) registry = Inr y
               \<and> current_state y = None \<and> state_registry y = Some registry"
    by simp
next
  assume "parent s = Some p \<and> get registry (name (h p)) = None"
  then show "State_from_dict (State_to_dict h s) registry
            = Inr (s\<lparr>children := [], parent := None\<rparr>)"
    by (simp add: State_from_to_dict get_def)
qed

text \<open>
  In the scenario \<open>pending_inspection\<close> and \<open>active\<close>, the parent of \<open>under_contract\<close>,
  are not registered.
\<close>

theorem unresolved_references_witness:
  "(\<exists>y. Transaction_from_dict tally_codec
           (Transaction_to_dict tally_codec demo_store (demo_transaction\<lparr>current_state := Some 4\<rparr>))
           demo_registry = Inr y
        \<and> current_state y = None \<and> state_registry y = Some demo_registry)
   \<and> State_from_dict (State_to_dict demo_store (demo_store 1)) demo_registry
       = Inr ((demo_store 1)\<lparr>children := [], parent := None\<rparr>)"
proof -
  have a: "current_state (demo_transaction\<lparr>current_state := Some 4\<rparr>) = Some 4" by simp
  have b: "get demo_registry (name (demo_store 4)) = None"
    by (simp add: get_def demo_registry_states demo_store_def blank_state_def)
  have p: "parent (demo_store 1) = Some 3" by (simp add: demo_store_def blank_state_def)
  have q: "get demo_registry (name (demo_store 3)) = None"
    by (simp add: get_def demo_registry_states demo_store_def blank_state_def)
  from unresolved_references [of tally_codec "demo_transaction\<lparr>current_state := Some 4\<rparr>" 4
      demo_registry demo_store "demo_store 1" 3] tally_codec_inverse a b p q
  show ?thesis by blast
qed

end
